theory Spec2Isabelle
  imports Main "HOL-Library.Signed_Division"
begin

section \<open>Go runtime faults and basic values\<close>

text \<open>
  A run-time panic of the Go program is a value of the model.  Go's \<open>int\<close> is modelled by
  \<open>int\<close>: all arithmetic of the ring buffer stays below twice the length of an allocated
  slice, so no operation of the modelled code can leave the 64-bit range.  Go's \<open>%\<close>
  truncates towards zero, which is \<open>smod\<close>.
\<close>

datatype panic =
    IndexOutOfRange
  | DivideByZero
  | NegativeLen
  | SendOnClosedChannel
  | CloseOfClosedChannel
  | NilDereference

text \<open>
  \<open>type Message struct { ID string; Payload interface{} }\<close>.  The broker never looks into
  the payload; it is kept as the JSON text of the value, \<open>None\<close> for the nil interface.
\<close>

record Message =
  ID :: string
  Payload :: "string option"

definition zero_Message :: Message where
  "zero_Message = \<lparr>ID = [], Payload = None\<rparr>"

section \<open>Ring buffer\<close>

record RingBuffer =
  rb_data :: "Message list"
  rb_size :: int
  rb_next :: int
  rb_full :: bool

text \<open>\<open>make([]Message, size)\<close> panics for a negative length.\<close>

definition NewRingBuffer :: "int \<Rightarrow> panic + RingBuffer" where
  "NewRingBuffer sz =
     (if sz < 0 then Inl NegativeLen
      else Inr \<lparr>rb_data = replicate (nat sz) zero_Message, rb_size = sz,
                 rb_next = 0, rb_full = False\<rparr>)"

text \<open>
  \<open>r.data[r.next] = m\<close> is bounds-checked, then \<open>(r.next + 1) % r.size\<close> divides by
  \<open>r.size\<close>.
\<close>

definition Add :: "RingBuffer \<Rightarrow> Message \<Rightarrow> panic + RingBuffer" where
  "Add r m =
     (if rb_next r < 0 \<or> int (length (rb_data r)) \<le> rb_next r then Inl IndexOutOfRange
      else if rb_size r = 0 then Inl DivideByZero
      else
        let nxt = (rb_next r + 1) smod rb_size r
        in Inr (r\<lparr>rb_data := (rb_data r)[nat (rb_next r) := m],
                   rb_next := nxt,
                   rb_full := (if nxt = 0 then True else rb_full r)\<rparr>))"

text \<open>A bounds-checked read \<open>xs[i]\<close>, and a loop appending \<open>xs[i]\<close> for each index in turn.\<close>

definition index :: "'a list \<Rightarrow> int \<Rightarrow> panic + 'a" where
  "index xs i = (if 0 \<le> i \<and> i < int (length xs) then Inr (xs ! nat i) else Inl IndexOutOfRange)"

fun read_all :: "'a list \<Rightarrow> int list \<Rightarrow> panic + 'a list" where
  "read_all xs [] = Inr []"
| "read_all xs (i # is) =
     (case index xs i of
        Inl p \<Rightarrow> Inl p
      | Inr x \<Rightarrow> (case read_all xs is of Inl p \<Rightarrow> Inl p | Inr ys \<Rightarrow> Inr (x # ys)))"

text \<open>
  \<open>LastN\<close>: the two branches of the source, with the clamped \<open>n\<close> also the capacity of
  \<open>make([]Message, 0, n)\<close>, which panics when negative.
\<close>

definition LastN :: "RingBuffer \<Rightarrow> int \<Rightarrow> panic + Message list" where
  "LastN r n =
     (if n \<le> 0 \<or> rb_size r = 0 then Inr []
      else if \<not> rb_full r then
        let n1 = (if n > rb_next r then rb_next r else n)
        in if n1 < 0 then Inl NegativeLen
           else read_all (rb_data r) [rb_next r - n1 .. rb_next r - 1]
      else
        let n1 = (if n > rb_size r then rb_size r else n)
        in if n1 < 0 then Inl NegativeLen
           else
             let start = (rb_next r - n1 + rb_size r) smod rb_size r
             in read_all (rb_data r) (map (\<lambda>i. (start + i) smod rb_size r) [0 .. n1 - 1]))"

text \<open>A sequence of \<open>Add\<close> calls; the first panic ends it.\<close>

fun AddAll :: "RingBuffer \<Rightarrow> Message list \<Rightarrow> panic + RingBuffer" where
  "AddAll r [] = Inr r"
| "AddAll r (m # ms) = (case Add r m of Inl p \<Rightarrow> Inl p | Inr r1 \<Rightarrow> AddAll r1 ms)"

section \<open>Wire frames and connections\<close>

text \<open>
  The structs of the wire protocol.  The \<open>TS\<close> field of a server frame is the wall clock
  at the time of writing and is left out.
\<close>

record ClientToServer =
  in_Type :: string
  in_Topic :: string
  in_Message :: "Message option"
  in_ClientID :: string
  in_LastN :: int
  in_RequestID :: string

record ErrObj =
  err_Code :: string
  err_Message :: string

record ServerToClient =
  out_Type :: string
  out_RequestID :: string
  out_Topic :: string
  out_Message :: "Message option"
  out_Error :: "ErrObj option"
  out_Status :: string
  out_Msg :: string

definition zero_frame :: ServerToClient where
  "zero_frame = \<lparr>out_Type = [], out_RequestID = [], out_Topic = [], out_Message = None,
                  out_Error = None, out_Status = [], out_Msg = []\<rparr>"

definition error_frame :: "string \<Rightarrow> string \<Rightarrow> string \<Rightarrow> ServerToClient" where
  "error_frame rid code msg =
     zero_frame\<lparr>out_Type := ''error'', out_RequestID := rid,
                out_Error := Some \<lparr>err_Code = code, err_Message = msg\<rparr>\<rparr>"

definition ack_frame :: "string \<Rightarrow> string \<Rightarrow> ServerToClient" where
  "ack_frame rid topic =
     zero_frame\<lparr>out_Type := ''ack'', out_RequestID := rid, out_Topic := topic,
                out_Status := ''ok''\<rparr>"

definition pong_frame :: "string \<Rightarrow> ServerToClient" where
  "pong_frame rid = zero_frame\<lparr>out_Type := ''pong'', out_RequestID := rid\<rparr>"

text \<open>
  \<open>WSConn\<close> is an interface; the server's implementation hands \<open>Write\<close> and \<open>Close\<close> to the
  websocket library.  A connection is the list of frames it has accepted for sending and,
  once closed, the status and reason of the first \<open>Close\<close>.  A \<open>Write\<close> on a closed
  connection returns an error and sends nothing; every caller modelled here discards the
  returned error (\<open>_ = conn.Write(...)\<close>).  A \<open>Write\<close> on an open connection is taken to
  return at once.  On a socket it can block for as long as the peer does not read, and the
  calls made with \<open>context.Background()\<close> have no deadline; a write that does not return
  is not part of the model, so nothing proved here says that a call which writes to an
  open connection returns in bounded time.
\<close>

record Conn =
  c_sent :: "ServerToClient list"
  c_closed :: "(int \<times> string) option"

definition StatusNormalClosure :: int where
  "StatusNormalClosure = 1000"

section \<open>Subscribers, topics and the process state\<close>

text \<open>
  A buffered channel of messages: its queue, its capacity and whether it has been closed.
  The channel \<open>closed chan struct{}\<close> of a subscriber is only ever closed, never sent on,
  so it is the flag \<open>s_closed\<close>.
\<close>

record Chan =
  ch_buf :: "Message list"
  ch_cap :: nat
  ch_closed :: bool

record Subscriber =
  s_id :: string
  s_send :: Chan
  s_conn :: nat
  s_closed :: bool

record Topic =
  t_name :: string
  t_subscribers :: "string \<rightharpoonup> nat"
  t_history :: RingBuffer
  t_msgCount :: int

text \<open>
  The process state: the environment variables (\<open>os.Getenv\<close> yields the empty string for
  an unset variable), the registry \<open>globalTopics.topics\<close>, the heap of \<open>*Subscriber\<close>
  objects with the next unused address, and the connections.  Subscribers are shared by
  address between a topic's map and the handler that created them, so the maps hold
  addresses.  Each handler runs as one step on this state.  The goroutines that run
  beside the handlers (the writer of a subscriber, which takes messages off its queue and
  writes them to the socket, and the heartbeat) are not part of the model: a queue only
  grows here, as it does while its writer is not scheduled or is blocked.
\<close>

record World =
  w_env :: "string \<Rightarrow> string"
  w_topics :: "string \<rightharpoonup> Topic"
  w_subs :: "nat \<rightharpoonup> Subscriber"
  w_next :: nat
  w_conns :: "nat \<Rightarrow> Conn"

text \<open>
  A call either returns or panics; in both cases the shared state stays as the call
  left it (the HTTP server recovers a panicking handler and the process goes on).
\<close>

datatype 'a outcome = Return 'a World | Panic panic World

definition and_then :: "unit outcome \<Rightarrow> (World \<Rightarrow> 'a outcome) \<Rightarrow> 'a outcome" where
  "and_then x f = (case x of Return _ st \<Rightarrow> f st | Panic p st \<Rightarrow> Panic p st)"

definition final_state :: "'a outcome \<Rightarrow> World" where
  "final_state x = (case x of Return _ st \<Rightarrow> st | Panic _ st \<Rightarrow> st)"

definition conn_Write :: "nat \<Rightarrow> ServerToClient \<Rightarrow> World \<Rightarrow> World" where
  "conn_Write c f st =
     (if c_closed (w_conns st c) = None
      then st\<lparr>w_conns := (w_conns st)(c := (w_conns st c)\<lparr>c_sent := c_sent (w_conns st c) @ [f]\<rparr>)\<rparr>
      else st)"

definition conn_Close :: "nat \<Rightarrow> int \<Rightarrow> string \<Rightarrow> World \<Rightarrow> World" where
  "conn_Close c code reason st =
     (if c_closed (w_conns st c) = None
      then st\<lparr>w_conns := (w_conns st)(c := (w_conns st c)\<lparr>c_closed := Some (code, reason)\<rparr>)\<rparr>
      else st)"

subsection \<open>Configuration\<close>

text \<open>
  \<open>strconv.Atoi\<close> as far as its value goes: an optional sign and decimal digits; a
  syntax error yields 0 and a value outside 64 bits the nearest bound.
\<close>

definition is_digit :: "char \<Rightarrow> bool" where
  "is_digit c \<longleftrightarrow> 48 \<le> (of_char c :: nat) \<and> (of_char c :: nat) \<le> 57"

fun digits_val :: "int \<Rightarrow> string \<Rightarrow> int" where
  "digits_val acc [] = acc"
| "digits_val acc (c # cs) = digits_val (acc * 10 + (int (of_char c) - 48)) cs"

definition Atoi :: "string \<Rightarrow> int" where
  "Atoi s =
     (let signed = (s \<noteq> [] \<and> (hd s = CHR ''-'' \<or> hd s = CHR ''+''));
          ds = (if signed then tl s else s)
      in if ds = [] \<or> \<not> list_all is_digit ds then 0
         else if s \<noteq> [] \<and> hd s = CHR ''-'' then max (- (2 ^ 63)) (- digits_val 0 ds)
         else min (2 ^ 63 - 1) (digits_val 0 ds))"

text \<open>The package variable \<open>subscriberQueueSize\<close>, computed once from the environment.\<close>

definition subscriberQueueSize :: "(string \<Rightarrow> string) \<Rightarrow> nat" where
  "subscriberQueueSize env =
     (let v = env ''SUBSCRIBER_QUEUE_SIZE''
      in if v \<noteq> [] \<and> Atoi v > 0 then nat (Atoi v) else 100)"

subsection \<open>Subscriber\<close>

text \<open>
  \<open>Close\<close>: the \<open>select\<close> returns at once when the closed-signal has fired; otherwise it
  closes the signal, closes the send channel (a panic if that channel is closed already)
  and closes the connection.
\<close>

definition Close :: "nat \<Rightarrow> World \<Rightarrow> unit outcome" where
  "Close r st =
     (case w_subs st r of
        None \<Rightarrow> Panic NilDereference st
      | Some s \<Rightarrow>
          if s_closed s then Return () st
          else
            let st1 = st\<lparr>w_subs := (w_subs st)(r \<mapsto> s\<lparr>s_closed := True\<rparr>)\<rparr>
            in if ch_closed (s_send s) then Panic CloseOfClosedChannel st1
               else Return ()
                 (conn_Close (s_conn s) StatusNormalClosure ''subscriber closed''
                   (st\<lparr>w_subs := (w_subs st)(r \<mapsto>
                        s\<lparr>s_closed := True, s_send := (s_send s)\<lparr>ch_closed := True\<rparr>\<rparr>)\<rparr>)))"

definition CloseWithError :: "nat \<Rightarrow> string \<Rightarrow> string \<Rightarrow> World \<Rightarrow> unit outcome" where
  "CloseWithError r code reason st =
     (case w_subs st r of
        None \<Rightarrow> Panic NilDereference st
      | Some s \<Rightarrow> Close r (conn_Write (s_conn s) (error_frame [] code reason) st))"

text \<open>
  The drain loop of \<open>CloseGracefully\<close>.  A receive proceeds when the queue holds a message
  or the channel is closed; otherwise the \<open>default\<close> branch returns.  After each receive
  the clock is compared with the deadline: \<open>budget\<close> is the number of receives after which
  the deadline has still not passed.
\<close>

fun drain :: "nat \<Rightarrow> Chan \<Rightarrow> Chan" where
  "drain 0 ch =
     (if ch_buf ch = [] \<and> \<not> ch_closed ch then ch else ch\<lparr>ch_buf := tl (ch_buf ch)\<rparr>)"
| "drain (Suc b) ch =
     (if ch_buf ch = [] \<and> \<not> ch_closed ch then ch else drain b (ch\<lparr>ch_buf := tl (ch_buf ch)\<rparr>))"

definition CloseGracefully :: "nat \<Rightarrow> nat \<Rightarrow> World \<Rightarrow> unit outcome" where
  "CloseGracefully budget r st =
     (case w_subs st r of
        None \<Rightarrow> Panic NilDereference st
      | Some s \<Rightarrow>
          if s_closed s then Panic CloseOfClosedChannel st
          else Return ()
            (st\<lparr>w_subs := (w_subs st)(r \<mapsto> s\<lparr>s_closed := True, s_send := drain budget (s_send s)\<rparr>)\<rparr>))"

text \<open>
  The non-blocking send \<open>select { case s.send <- m: ... default: ... }\<close>: a panic on a
  closed channel, \<open>True\<close> when the message was queued, \<open>False\<close> for the \<open>default\<close> branch.
\<close>

definition try_send :: "nat \<Rightarrow> Message \<Rightarrow> World \<Rightarrow> bool outcome" where
  "try_send r m st =
     (case w_subs st r of
        None \<Rightarrow> Panic NilDereference st
      | Some s \<Rightarrow>
          if ch_closed (s_send s) then Panic SendOnClosedChannel st
          else if length (ch_buf (s_send s)) < ch_cap (s_send s)
          then Return True
            (st\<lparr>w_subs := (w_subs st)(r \<mapsto> s\<lparr>s_send := (s_send s)\<lparr>ch_buf := ch_buf (s_send s) @ [m]\<rparr>\<rparr>)\<rparr>)
          else Return False st)"

subsection \<open>Topic registry\<close>

datatype err = ErrTopicExists | ErrTopicNotFound

definition CreateTopic :: "string \<Rightarrow> World \<Rightarrow> err option outcome" where
  "CreateTopic name st =
     (case w_topics st name of
        Some _ \<Rightarrow> Return (Some ErrTopicExists) st
      | None \<Rightarrow>
          (case NewRingBuffer 100 of
             Inl p \<Rightarrow> Panic p st
           | Inr rb \<Rightarrow>
               Return None
                 (st\<lparr>w_topics := (w_topics st)(name \<mapsto>
                      \<lparr>t_name = name, t_subscribers = Map.empty, t_history = rb, t_msgCount = 0\<rparr>)\<rparr>)))"

text \<open>
  The source reaches a topic through the pointer that \<open>GetTopic\<close> returned.  No step of
  a handler removes a topic, so within a handler the model reaches it through its name:
  \<open>upd_topic\<close> writes fields of the topic, \<open>subscriber_of\<close> reads \<open>t.subscribers[cid]\<close>.
\<close>

definition upd_topic :: "string \<Rightarrow> (Topic \<Rightarrow> Topic) \<Rightarrow> World \<Rightarrow> World" where
  "upd_topic tn f st =
     (case w_topics st tn of None \<Rightarrow> st | Some t \<Rightarrow> st\<lparr>w_topics := (w_topics st)(tn \<mapsto> f t)\<rparr>)"

definition subscriber_of :: "string \<Rightarrow> string \<Rightarrow> World \<Rightarrow> nat option" where
  "subscriber_of tn cid st =
     (case w_topics st tn of None \<Rightarrow> None | Some t \<Rightarrow> t_subscribers t cid)"

text \<open>
  \<open>CloseAllGracefully\<close>: the two nested \<open>range\<close> loops.  Go leaves the order of a map
  iteration open, so the order of the topics and, per topic, of the client ids is a
  parameter; a key that is not in the map is not visited.
\<close>

fun close_subs_gracefully :: "nat \<Rightarrow> string \<Rightarrow> string list \<Rightarrow> World \<Rightarrow> unit outcome" where
  "close_subs_gracefully budget tn [] st = Return () st"
| "close_subs_gracefully budget tn (cid # cids) st =
     (case subscriber_of tn cid st of
        None \<Rightarrow> close_subs_gracefully budget tn cids st
      | Some r \<Rightarrow> and_then (CloseGracefully budget r st) (close_subs_gracefully budget tn cids))"

fun CloseAllGracefully :: "nat \<Rightarrow> (string \<Rightarrow> string list) \<Rightarrow> string list \<Rightarrow> World \<Rightarrow> unit outcome" where
  "CloseAllGracefully budget sorder [] st = Return () st"
| "CloseAllGracefully budget sorder (tn # tns) st =
     and_then (close_subs_gracefully budget tn (sorder tn) st) (CloseAllGracefully budget sorder tns)"

subsection \<open>Publishing\<close>

text \<open>The counter \<open>msgCount\<close> is an \<open>int64\<close>; \<open>t.msgCount++\<close> wraps around.\<close>

definition incr_int64 :: "int \<Rightarrow> int" where
  "incr_int64 n = (n + 1 + 2 ^ 63) mod 2 ^ 64 - 2 ^ 63"

text \<open>
  The fan-out loop of \<open>publishToTopic\<close> over the client ids in the order the \<open>range\<close>
  visits them.  On the \<open>default\<close> branch the subscriber is written the error frame,
  closed and deleted from the map.
\<close>

fun fanout :: "string \<Rightarrow> Message \<Rightarrow> string list \<Rightarrow> World \<Rightarrow> unit outcome" where
  "fanout tn m [] st = Return () st"
| "fanout tn m (cid # cids) st =
     (case subscriber_of tn cid st of
        None \<Rightarrow> fanout tn m cids st
      | Some r \<Rightarrow>
          (case try_send r m st of
             Panic p st1 \<Rightarrow> Panic p st1
           | Return True st1 \<Rightarrow> fanout tn m cids st1
           | Return False st1 \<Rightarrow>
               (case w_subs st1 r of
                  None \<Rightarrow> Panic NilDereference st1
                | Some s \<Rightarrow>
                    and_then
                      (Close r (conn_Write (s_conn s)
                         (error_frame [] ''SLOW_CONSUMER'' ''subscriber queue overflow'') st1))
                      (\<lambda>st2. fanout tn m cids
                         (upd_topic tn (\<lambda>t. t\<lparr>t_subscribers := (t_subscribers t)(cid := None)\<rparr>) st2)))))"

definition publishToTopic :: "string \<Rightarrow> Message \<Rightarrow> string list \<Rightarrow> World \<Rightarrow> err option outcome" where
  "publishToTopic tn m order st =
     (case w_topics st tn of
        None \<Rightarrow> Return (Some ErrTopicNotFound) st
      | Some t \<Rightarrow>
          (case Add (t_history t) m of
             Inl p \<Rightarrow> Panic p st
           | Inr h \<Rightarrow>
               and_then (fanout tn m order (upd_topic tn (\<lambda>t. t\<lparr>t_history := h\<rparr>) st))
                 (\<lambda>st1. Return None
                    (upd_topic tn (\<lambda>t. t\<lparr>t_msgCount := incr_int64 (t_msgCount t)\<rparr>) st1))))"

subsection \<open>The session handler\<close>

text \<open>
  \<open>sub := &Subscriber{...}\<close>: a fresh object at the next unused address, with an empty
  queue of capacity \<open>subscriberQueueSize\<close>, bound to the session's connection.  The
  allocation \<open>make(chan Message, n)\<close> is taken to succeed; for a size beyond what the
  runtime can allocate it panics instead.
\<close>

definition new_Subscriber :: "string \<Rightarrow> nat \<Rightarrow> World \<Rightarrow> nat \<times> World" where
  "new_Subscriber cid c st =
     (w_next st,
      st\<lparr>w_subs := (w_subs st)(w_next st \<mapsto>
            \<lparr>s_id = cid,
             s_send = \<lparr>ch_buf = [], ch_cap = subscriberQueueSize (w_env st), ch_closed = False\<rparr>,
             s_conn = c, s_closed = False\<rparr>),
         w_next := Suc (w_next st)\<rparr>)"

text \<open>
  Registration under the topic's lock, in its two steps: close the subscriber already
  bound to the client id, if there is one, then bind the new one.
\<close>

definition close_existing :: "string \<Rightarrow> string \<Rightarrow> World \<Rightarrow> unit outcome" where
  "close_existing tn cid st =
     (case subscriber_of tn cid st of None \<Rightarrow> Return () st | Some old \<Rightarrow> Close old st)"

definition bind_subscriber :: "string \<Rightarrow> string \<Rightarrow> nat \<Rightarrow> World \<Rightarrow> World" where
  "bind_subscriber tn cid r st =
     upd_topic tn (\<lambda>t. t\<lparr>t_subscribers := (t_subscribers t)(cid \<mapsto> r)\<rparr>) st"

definition register :: "string \<Rightarrow> string \<Rightarrow> nat \<Rightarrow> World \<Rightarrow> unit outcome" where
  "register tn cid r st =
     and_then (close_existing tn cid st) (\<lambda>st1. Return () (bind_subscriber tn cid r st1))"

text \<open>
  The replay loop.  The \<open>default\<close> branch calls \<open>CloseWithError\<close> and the loop goes on
  with the next message.
\<close>

fun replay :: "nat \<Rightarrow> Message list \<Rightarrow> World \<Rightarrow> unit outcome" where
  "replay r [] st = Return () st"
| "replay r (m # ms) st =
     (case try_send r m st of
        Panic p st1 \<Rightarrow> Panic p st1
      | Return True st1 \<Rightarrow> replay r ms st1
      | Return False st1 \<Rightarrow>
          and_then (CloseWithError r ''SLOW_CONSUMER'' ''replay overflow'' st1) (replay r ms))"

definition handle_subscribe :: "nat \<Rightarrow> ClientToServer \<Rightarrow> World \<Rightarrow> unit outcome" where
  "handle_subscribe c i st =
     (if in_Topic i = [] \<or> in_ClientID i = []
      then Return ()
        (conn_Write c (error_frame (in_RequestID i) ''BAD_REQUEST'' ''topic and client_id required'') st)
      else
        case w_topics st (in_Topic i) of
          None \<Rightarrow> Return ()
            (conn_Write c (error_frame (in_RequestID i) ''TOPIC_NOT_FOUND'' ''topic not found'') st)
        | Some topic \<Rightarrow>
            (case new_Subscriber (in_ClientID i) c st of
               (r, st1) \<Rightarrow>
                 and_then (register (in_Topic i) (in_ClientID i) r st1)
                   (\<lambda>st2.
                      and_then
                        (if in_LastN i > 0
                         then (case LastN (t_history topic) (in_LastN i) of
                                 Inl p \<Rightarrow> Panic p st2
                               | Inr ms \<Rightarrow> replay r ms st2)
                         else Return () st2)
                        (\<lambda>st3. Return ()
                           (conn_Write c (ack_frame (in_RequestID i) (t_name topic)) st3)))))"

definition handle_unsubscribe :: "nat \<Rightarrow> ClientToServer \<Rightarrow> World \<Rightarrow> unit outcome" where
  "handle_unsubscribe c i st =
     (if in_Topic i = [] \<or> in_ClientID i = []
      then Return ()
        (conn_Write c (error_frame (in_RequestID i) ''BAD_REQUEST'' ''topic and client_id required'') st)
      else
        and_then
          (case subscriber_of (in_Topic i) (in_ClientID i) st of
             None \<Rightarrow> Return () st
           | Some r \<Rightarrow>
               and_then (Close r st)
                 (\<lambda>st1. Return ()
                    (upd_topic (in_Topic i)
                       (\<lambda>t. t\<lparr>t_subscribers := (t_subscribers t)(in_ClientID i := None)\<rparr>) st1)))
          (\<lambda>st2. Return () (conn_Write c (ack_frame (in_RequestID i) (in_Topic i)) st2)))"

definition handle_publish :: "nat \<Rightarrow> string list \<Rightarrow> ClientToServer \<Rightarrow> World \<Rightarrow> unit outcome" where
  "handle_publish c order i st =
     (case in_Message i of
        None \<Rightarrow> Return ()
          (conn_Write c (error_frame (in_RequestID i) ''BAD_REQUEST'' ''topic and message required'') st)
      | Some m \<Rightarrow>
          if in_Topic i = []
          then Return ()
            (conn_Write c (error_frame (in_RequestID i) ''BAD_REQUEST'' ''topic and message required'') st)
          else
            (case publishToTopic (in_Topic i) m order st of
               Panic p st1 \<Rightarrow> Panic p st1
             | Return (Some e) st1 \<Rightarrow> Return ()
                 (conn_Write c
                    (error_frame (in_RequestID i)
                       (if e = ErrTopicNotFound then ''TOPIC_NOT_FOUND'' else ''INTERNAL'')
                       (if e = ErrTopicNotFound then ''topic not found'' else ''topic already exists'')) st1)
             | Return None st1 \<Rightarrow> Return ()
                 (conn_Write c (ack_frame (in_RequestID i) (in_Topic i)) st1)))"

text \<open>
  The \<open>switch in.Type\<close> of the read loop.  \<open>order\<close> is the iteration order of the
  fan-out, used by a \<open>publish\<close> frame only.
\<close>

definition handle :: "nat \<Rightarrow> string list \<Rightarrow> ClientToServer \<Rightarrow> World \<Rightarrow> unit outcome" where
  "handle c order i st =
     (if in_Type i = ''ping'' then Return () (conn_Write c (pong_frame (in_RequestID i)) st)
      else if in_Type i = ''subscribe'' then handle_subscribe c i st
      else if in_Type i = ''unsubscribe'' then handle_unsubscribe c i st
      else if in_Type i = ''publish'' then handle_publish c order i st
      else Return () (conn_Write c (error_frame (in_RequestID i) ''BAD_REQUEST'' ''unknown type'') st))"

text \<open>
  A session after the upgrade: the frames read before the read fails, each handled in
  turn; then the cleanup loop over the session's own map \<open>subs\<close> and the close of the
  socket.  The map is created empty and no statement of the handler stores into it.
  A panic ends the handler without the cleanup.  The connection is taken to be open
  until something closes it in the model; on a socket the failed read has usually closed
  it already, and the handler's own \<open>Close\<close> then changes nothing.
\<close>

fun read_loop :: "nat \<Rightarrow> (ClientToServer \<times> string list) list \<Rightarrow> World \<Rightarrow> unit outcome" where
  "read_loop c [] st = Return () st"
| "read_loop c ((i, order) # rest) st = and_then (handle c order i st) (read_loop c rest)"

fun close_each :: "(string \<rightharpoonup> nat) \<Rightarrow> string list \<Rightarrow> World \<Rightarrow> unit outcome" where
  "close_each subs [] st = Return () st"
| "close_each subs (k # ks) st =
     (case subs k of
        None \<Rightarrow> close_each subs ks st
      | Some r \<Rightarrow> and_then (Close r st) (close_each subs ks))"

definition wsHandler :: "nat \<Rightarrow> (ClientToServer \<times> string list) list \<Rightarrow> string list \<Rightarrow> World \<Rightarrow> unit outcome" where
  "wsHandler c frames ks st =
     (let subs = Map.empty
      in and_then (read_loop c frames st)
           (\<lambda>st1. and_then (close_each subs ks st1)
              (\<lambda>st2. Return () (conn_Close c StatusNormalClosure ''bye'' st2))))"

subsection \<open>Creating a topic over HTTP\<close>

text \<open>
  \<open>strings.TrimSpace\<close> removes leading and trailing Unicode white space.  On the UTF-8
  bytes of a string these are the six ASCII characters and the encodings of U+0085,
  U+00A0, U+1680, U+2000 to U+200A, U+2028, U+2029, U+202F, U+205F and U+3000.
\<close>

definition space_seqs :: "string list" where
  "space_seqs =
     [[CHR 0x09], [CHR 0x0A], [CHR 0x0B], [CHR 0x0C], [CHR 0x0D], [CHR 0x20],
      [CHR 0xC2, CHR 0x85], [CHR 0xC2, CHR 0xA0], [CHR 0xE1, CHR 0x9A, CHR 0x80],
      [CHR 0xE2, CHR 0x80, CHR 0x80], [CHR 0xE2, CHR 0x80, CHR 0x81],
      [CHR 0xE2, CHR 0x80, CHR 0x82], [CHR 0xE2, CHR 0x80, CHR 0x83],
      [CHR 0xE2, CHR 0x80, CHR 0x84], [CHR 0xE2, CHR 0x80, CHR 0x85],
      [CHR 0xE2, CHR 0x80, CHR 0x86], [CHR 0xE2, CHR 0x80, CHR 0x87],
      [CHR 0xE2, CHR 0x80, CHR 0x88], [CHR 0xE2, CHR 0x80, CHR 0x89],
      [CHR 0xE2, CHR 0x80, CHR 0x8A], [CHR 0xE2, CHR 0x80, CHR 0xA8],
      [CHR 0xE2, CHR 0x80, CHR 0xA9], [CHR 0xE2, CHR 0x80, CHR 0xAF],
      [CHR 0xE2, CHR 0x81, CHR 0x9F], [CHR 0xE3, CHR 0x80, CHR 0x80]]"

text \<open>
  Dropping the white space at the front: \<open>fuel\<close> bounds the number of characters
  dropped and is the length of the string where the function is used.
\<close>

fun trim_front :: "string list \<Rightarrow> nat \<Rightarrow> string \<Rightarrow> string" where
  "trim_front seqs 0 s = s"
| "trim_front seqs (Suc fuel) s =
     (case find (\<lambda>q. q \<noteq> [] \<and> take (length q) s = q) seqs of
        None \<Rightarrow> s
      | Some q \<Rightarrow> trim_front seqs fuel (drop (length q) s))"

definition TrimSpace :: "string \<Rightarrow> string" where
  "TrimSpace s =
     (let s1 = trim_front space_seqs (length s) s
      in rev (trim_front (map rev space_seqs) (length s1) (rev s1)))"

text \<open>
  The \<open>POST\<close> case of \<open>topicsCollectionHandler\<close>.  The request is the result of decoding
  the body: \<open>None\<close> when the decoder fails, otherwise the \<open>name\<close> field.  The response is
  the status code, the \<open>status\<close> or error code, and the topic name or error message.
\<close>

record Response =
  resp_status :: nat
  resp_code :: string
  resp_text :: string

definition topicsCollectionHandler_post :: "string option \<Rightarrow> World \<Rightarrow> Response outcome" where
  "topicsCollectionHandler_post req st =
     (case req of
        None \<Rightarrow> Return \<lparr>resp_status = 400, resp_code = ''BAD_REQUEST'', resp_text = ''name is required''\<rparr> st
      | Some name \<Rightarrow>
          if TrimSpace name = []
          then Return \<lparr>resp_status = 400, resp_code = ''BAD_REQUEST'', resp_text = ''name is required''\<rparr> st
          else
            (case CreateTopic name st of
               Panic p st1 \<Rightarrow> Panic p st1
             | Return (Some e) st1 \<Rightarrow>
                 if e = ErrTopicExists
                 then Return \<lparr>resp_status = 409, resp_code = ''CONFLICT'', resp_text = ''topic already exists''\<rparr> st1
                 else Return \<lparr>resp_status = 500, resp_code = ''INTERNAL'', resp_text = ''topic not found''\<rparr> st1
             | Return None st1 \<Rightarrow>
                 Return \<lparr>resp_status = 201, resp_code = ''created'', resp_text = name\<rparr> st1))"

text \<open>The state of a process that has just started with environment \<open>env\<close>.\<close>

definition init_World :: "(string \<Rightarrow> string) \<Rightarrow> World" where
  "init_World env =
     \<lparr>w_env = env, w_topics = Map.empty, w_subs = Map.empty, w_next = 0,
      w_conns = (\<lambda>_. \<lparr>c_sent = [], c_closed = None\<rparr>)\<rparr>"

section \<open>Notions used to state the properties\<close>

text \<open>
  The state of a ring buffer of capacity \<open>N\<close> after the messages \<open>ms\<close> were added: the write
  position is \<open>length ms mod N\<close>, and each of the last \<open>N\<close> messages sits in the slot of its
  insertion number modulo \<open>N\<close>.
\<close>

definition rb_inv :: "nat \<Rightarrow> Message list \<Rightarrow> RingBuffer \<Rightarrow> bool" where
  "rb_inv N ms r \<longleftrightarrow>
     rb_size r = int N \<and> length (rb_data r) = N \<and> rb_next r = int (length ms mod N) \<and>
     rb_full r = (N \<le> length ms) \<and>
     (\<forall>j < length ms. length ms \<le> j + N \<longrightarrow> rb_data r ! (j mod N) = ms ! j)"

text \<open>The value a call returned, if it returned.\<close>

definition result_of :: "'a outcome \<Rightarrow> 'a option" where
  "result_of x = (case x of Return v _ \<Rightarrow> Some v | Panic _ _ \<Rightarrow> None)"

text \<open>\<open>Close\<close> invoked \<open>n\<close> times in succession on the same subscriber.\<close>

fun Close_times :: "nat \<Rightarrow> nat \<Rightarrow> World \<Rightarrow> unit outcome" where
  "Close_times 0 r st = Return () st"
| "Close_times (Suc n) r st = and_then (Close r st) (Close_times n r)"

text \<open>The capacity of a topic's ring buffer, and the state of a subscriber's queue.\<close>

definition history_size :: "string \<Rightarrow> World \<Rightarrow> int option" where
  "history_size tn st = map_option (\<lambda>t. rb_size (t_history t)) (w_topics st tn)"

definition queue_length :: "nat \<Rightarrow> World \<Rightarrow> nat option" where
  "queue_length r st = map_option (\<lambda>s. length (ch_buf (s_send s))) (w_subs st r)"

definition queue_capacity :: "nat \<Rightarrow> World \<Rightarrow> nat option" where
  "queue_capacity r st = map_option (\<lambda>s. ch_cap (s_send s)) (w_subs st r)"

definition send_closed :: "nat \<Rightarrow> World \<Rightarrow> bool option" where
  "send_closed r st = map_option (\<lambda>s. ch_closed (s_send s)) (w_subs st r)"

definition signal_closed :: "nat \<Rightarrow> World \<Rightarrow> bool option" where
  "signal_closed r st = map_option s_closed (w_subs st r)"

subsection \<open>Concrete states and frames\<close>

text \<open>A process that has just started with no variable set.\<close>

definition ex_fresh_World :: World where
  "ex_fresh_World = init_World (\<lambda>_. [])"

text \<open>
  A state with one topic \<open>t\<close> and one open subscriber \<open>a\<close> with a queue of capacity 1
  on connection 0.
\<close>

definition ex_sub :: Subscriber where
  "ex_sub = \<lparr>s_id = ''a'', s_send = \<lparr>ch_buf = [], ch_cap = 1, ch_closed = False\<rparr>,
             s_conn = 0, s_closed = False\<rparr>"

definition ex_topic :: Topic where
  "ex_topic =
     \<lparr>t_name = ''t'', t_subscribers = [''a'' \<mapsto> 0],
      t_history = \<lparr>rb_data = replicate 100 zero_Message, rb_size = 100, rb_next = 0,
                   rb_full = False\<rparr>,
      t_msgCount = 0\<rparr>"

definition ex_World :: World where
  "ex_World =
     ex_fresh_World\<lparr>w_topics := [''t'' \<mapsto> ex_topic], w_subs := [0 \<mapsto> ex_sub], w_next := 1\<rparr>"

definition subscribe_frame :: "string \<Rightarrow> string \<Rightarrow> int \<Rightarrow> ClientToServer" where
  "subscribe_frame tn cid n =
     \<lparr>in_Type = ''subscribe'', in_Topic = tn, in_Message = None, in_ClientID = cid,
      in_LastN = n, in_RequestID = ''r''\<rparr>"

definition publish_frame :: "string \<Rightarrow> string \<Rightarrow> ClientToServer" where
  "publish_frame tn mid =
     \<lparr>in_Type = ''publish'', in_Topic = tn, in_Message = Some \<lparr>ID = mid, Payload = None\<rparr>,
      in_ClientID = [], in_LastN = 0, in_RequestID = ''p''\<rparr>"

text \<open>An environment that sets \<open>RING_BUFFER_SIZE\<close>.\<close>

definition ex_env_ring :: "string \<Rightarrow> string" where
  "ex_env_ring = (\<lambda>_. [])(''RING_BUFFER_SIZE'' := ''5'')"

text \<open>The topic that \<open>CreateTopic\<close> stores under a new name.\<close>

definition new_topic :: "string \<Rightarrow> Topic" where
  "new_topic name =
     \<lparr>t_name = name, t_subscribers = Map.empty,
      t_history = \<lparr>rb_data = replicate 100 zero_Message, rb_size = 100, rb_next = 0, rb_full = False\<rparr>,
      t_msgCount = 0\<rparr>"

text \<open>
  Two \<open>POST /topics\<close> requests on a fresh process, the first with the name \<open>" t "\<close>, the
  second with \<open>"t"\<close>.
\<close>

definition ex_two_posts :: "Response outcome" where
  "ex_two_posts =
     topicsCollectionHandler_post (Some ''t'')
       (final_state (topicsCollectionHandler_post (Some '' t '') ex_fresh_World))"

text \<open>
  A session on connection 1 of a process with the topic \<open>t\<close>: it subscribes client \<open>c\<close>,
  then its read fails.
\<close>

definition ex_session :: "unit outcome" where
  "ex_session =
     wsHandler 1 [(subscribe_frame ''t'' ''c'' 0, [])] []
       (final_state (CreateTopic ''t'' ex_fresh_World))"

subsection \<open>Well-formed states\<close>

text \<open>
  What every state of the running process satisfies: subscriber objects live below the
  next unused address, a send channel is closed only after the closed-signal (only
  \<open>Close\<close> closes it), and the addresses held by the topics' maps are allocated.
\<close>

definition wf_World :: "World \<Rightarrow> bool" where
  "wf_World st \<longleftrightarrow>
     (\<forall>r s. w_subs st r = Some s \<longrightarrow> r < w_next st \<and> (ch_closed (s_send s) \<longrightarrow> s_closed s)) \<and>
     (\<forall>tn cid r. subscriber_of tn cid st = Some r \<longrightarrow> w_subs st r \<noteq> None)"

text \<open>The state with the messages \<open>ms\<close> appended to the queue of subscriber \<open>r\<close>.\<close>

definition queued :: "nat \<Rightarrow> Message list \<Rightarrow> World \<Rightarrow> World" where
  "queued r ms st =
     (case w_subs st r of
        None \<Rightarrow> st
      | Some s \<Rightarrow> st\<lparr>w_subs := (w_subs st)(r \<mapsto> s\<lparr>s_send := (s_send s)\<lparr>ch_buf := ch_buf (s_send s) @ ms\<rparr>\<rparr>)\<rparr>)"

text \<open>The subscriber object that the \<open>subscribe\<close> handler creates.\<close>

definition fresh_sub :: "string \<Rightarrow> nat \<Rightarrow> World \<Rightarrow> Subscriber" where
  "fresh_sub cid c st =
     \<lparr>s_id = cid,
      s_send = \<lparr>ch_buf = [], ch_cap = subscriberQueueSize (w_env st), ch_closed = False\<rparr>,
      s_conn = c, s_closed = False\<rparr>"

text \<open>
  Whether the session's connection is still open once the handler has registered its
  new subscriber: it was open, and the subscriber replaced under the same client id, if
  any and not yet closed, was bound to another connection (\<open>Close\<close> closes the
  connection of the subscriber it closes).
\<close>

definition open_after_register :: "string \<Rightarrow> string \<Rightarrow> nat \<Rightarrow> World \<Rightarrow> bool" where
  "open_after_register tn cid c st \<longleftrightarrow>
     c_closed (w_conns st c) = None \<and>
     (case subscriber_of tn cid st of
        None \<Rightarrow> True
      | Some old \<Rightarrow> (case w_subs st old of None \<Rightarrow> True | Some so \<Rightarrow> s_closed so \<or> s_conn so \<noteq> c))"

text \<open>
  A process started with \<open>SUBSCRIBER_QUEUE_SIZE=1\<close> in which the topic \<open>t\<close> was created
  and the messages \<open>m1\<close>, \<open>m2\<close>, \<open>m3\<close> were published over connection 0.
\<close>

definition ex_env_q1 :: "string \<Rightarrow> string" where
  "ex_env_q1 = (\<lambda>_. [])(''SUBSCRIBER_QUEUE_SIZE'' := ''1'')"

definition ex_msg :: "string \<Rightarrow> Message" where
  "ex_msg mid = \<lparr>ID = mid, Payload = None\<rparr>"

definition ex_hist :: "Message list \<Rightarrow> RingBuffer" where
  "ex_hist ms =
     \<lparr>rb_data = ms @ replicate (100 - length ms) zero_Message, rb_size = 100,
      rb_next = int (length ms), rb_full = False\<rparr>"

definition ex_pub_World :: World where
  "ex_pub_World =
     \<lparr>w_env = ex_env_q1,
      w_topics = [''t'' \<mapsto> \<lparr>t_name = ''t'', t_subscribers = Map.empty,
                              t_history = ex_hist [ex_msg ''m1'', ex_msg ''m2'', ex_msg ''m3''],
                              t_msgCount = 3\<rparr>],
      w_subs = Map.empty, w_next = 0,
      w_conns = (\<lambda>_. \<lparr>c_sent = [], c_closed = None\<rparr>)
                  (0 := \<lparr>c_sent = [ack_frame ''p'' ''t'', ack_frame ''p'' ''t'', ack_frame ''p'' ''t''],
                         c_closed = None\<rparr>)\<rparr>"

text \<open>
  How the steps of a handler other than the registration change the state: topics, next
  address and environment stay; a subscriber object stays allocated with its id and
  connection; a closed signal or channel stays closed; a send channel is only closed
  together with its signal.
\<close>

definition evolves :: "World \<Rightarrow> World \<Rightarrow> bool" where
  "evolves st st1 \<longleftrightarrow>
     w_topics st1 = w_topics st \<and> w_next st1 = w_next st \<and> w_env st1 = w_env st \<and>
     (\<forall>r. w_subs st r = None \<longrightarrow> w_subs st1 r = None) \<and>
     (\<forall>r s. w_subs st r = Some s \<longrightarrow>
        (\<exists>s1. w_subs st1 r = Some s1 \<and> s_id s1 = s_id s \<and> s_conn s1 = s_conn s \<and>
              (s_closed s \<longrightarrow> s_closed s1) \<and>
              (ch_closed (s_send s) \<longrightarrow> ch_closed (s_send s1)) \<and>
              (ch_closed (s_send s1) \<longrightarrow> s_closed s1 \<or> ch_closed (s_send s))))"

subsection \<open>Notions for the fan-out\<close>

text \<open>The error frame that \<open>publishToTopic\<close> writes to a subscriber it evicts.\<close>

definition slow_frame :: ServerToClient where
  "slow_frame = error_frame [] ''SLOW_CONSUMER'' ''subscriber queue overflow''"

text \<open>
  The example process after three clients subscribed to \<open>t\<close>: \<open>a\<close> with \<open>last_n = 1\<close> on
  connection 1, whose queue of capacity 1 is full with the replayed message; \<open>b\<close> with
  \<open>last_n = 2\<close> on connection 2, whose replay overflowed on the second message, so that it
  was closed and stays registered; \<open>c\<close> with \<open>last_n = 0\<close> on connection 3, whose queue is
  empty.
\<close>

definition ex_stale_World :: World where
  "ex_stale_World =
     final_state (handle 3 [] (subscribe_frame ''t'' ''c'' 0)
       (final_state (handle 2 [] (subscribe_frame ''t'' ''b'' 2)
          (final_state (handle 1 [] (subscribe_frame ''t'' ''a'' 1) ex_pub_World)))))"

subsection \<open>Notions for the replacement of a subscriber\<close>

text \<open>
  A subscriber object whose closed-signal, if it has fired, has its send channel and its
  connection closed with it, as \<open>Close\<close> leaves them.
\<close>

definition tidy :: "nat \<Rightarrow> World \<Rightarrow> bool" where
  "tidy r st \<longleftrightarrow>
     (case w_subs st r of
        None \<Rightarrow> False
      | Some s \<Rightarrow> s_closed s \<longrightarrow> ch_closed (s_send s) \<and> c_closed (w_conns st (s_conn s)) \<noteq> None)"

text \<open>
  The part of the \<open>subscribe\<close> case that follows the registration (\<open>ws.go\<close>, from
  \<open>// optional replay\<close> to the ack), for the subscriber \<open>r\<close> and the topic as \<open>GetTopic\<close>
  returned it.
\<close>

definition replay_and_ack :: "nat \<Rightarrow> ClientToServer \<Rightarrow> Topic \<Rightarrow> nat \<Rightarrow> World \<Rightarrow> unit outcome" where
  "replay_and_ack c i topic r st2 =
     and_then
       (if in_LastN i > 0
        then (case LastN (t_history topic) (in_LastN i) of
                Inl p \<Rightarrow> Panic p st2
              | Inr ms \<Rightarrow> replay r ms st2)
        else Return () st2)
       (\<lambda>st3. Return () (conn_Write c (ack_frame (in_RequestID i) (t_name topic)) st3))"

text \<open>
  A state in which \<open>Close\<close> faults: the topic \<open>t\<close> binds \<open>a\<close> to a subscriber whose send
  channel is closed and whose closed-signal has not fired.  No run of the handlers leads
  to such a state (\<open>wf_World\<close>); it serves to tell the order of the steps of the
  registration.
\<close>

definition ex_torn_World :: World where
  "ex_torn_World =
     ex_pub_World
       \<lparr>w_topics := [''t'' \<mapsto> \<lparr>t_name = ''t'', t_subscribers = [''a'' \<mapsto> 0],
                              t_history = ex_hist [ex_msg ''m1'', ex_msg ''m2'', ex_msg ''m3''],
                              t_msgCount = 3\<rparr>],
        w_subs := [0 \<mapsto> \<lparr>s_id = ''a'',
                           s_send = \<lparr>ch_buf = [], ch_cap = 1, ch_closed = True\<rparr>,
                           s_conn = 1, s_closed = False\<rparr>],
        w_next := 1\<rparr>"

section \<open>Sequencing and closing\<close>

lemma and_then_Return [simp]: "and_then (Return u st) f = f st"
  by (simp add: and_then_def)

lemma and_then_Panic [simp]: "and_then (Panic p st) f = Panic p st"
  by (simp add: and_then_def)

lemma and_then_eq_Return:
  "and_then x f = Return v st' \<longleftrightarrow> (\<exists>st1. x = Return () st1 \<and> f st1 = Return v st')"
  by (cases x) simp_all

lemma Close_closed:
  assumes "w_subs st r = Some s" "s_closed s"
  shows "Close r st = Return () st"
  using assms by (simp add: Close_def)

lemma Close_Return_closed:
  assumes "Close r st = Return () st1"
  shows "\<exists>s1. w_subs st1 r = Some s1 \<and> s_closed s1"
  using assms
  by (auto simp: Close_def conn_Close_def Let_def split: option.splits if_splits)

lemma subscriber_of_w_subs_upd [simp]:
  "subscriber_of tn cid (st\<lparr>w_subs := h\<rparr>) = subscriber_of tn cid st"
  by (simp add: subscriber_of_def)

text \<open>
  The cleanup of \<open>wsHandler\<close> runs over the session's map \<open>subs\<close>, which is empty: the
  handler closes the socket and nothing else.
\<close>

lemma close_each_empty: "close_each Map.empty ks st = Return () st"
  by (induction ks) simp_all

lemma wsHandler_closes_no_subscriber:
  "wsHandler c frames ks st =
     and_then (read_loop c frames st) (\<lambda>st1. Return () (conn_Close c StatusNormalClosure ''bye'' st1))"
  by (simp add: wsHandler_def close_each_empty)

section \<open>Effects of the handler's steps\<close>

lemma conn_Write_fields [simp]:
  "w_subs (conn_Write c f st) = w_subs st"
  "w_topics (conn_Write c f st) = w_topics st"
  "w_next (conn_Write c f st) = w_next st"
  "w_env (conn_Write c f st) = w_env st"
  by (simp_all add: conn_Write_def)

lemma conn_Close_fields [simp]:
  "w_subs (conn_Close c code reason st) = w_subs st"
  "w_topics (conn_Close c code reason st) = w_topics st"
  "w_next (conn_Close c code reason st) = w_next st"
  "w_env (conn_Close c code reason st) = w_env st"
  by (simp_all add: conn_Close_def)

lemma upd_topic_fields [simp]:
  "w_subs (upd_topic tn f st) = w_subs st"
  "w_conns (upd_topic tn f st) = w_conns st"
  "w_next (upd_topic tn f st) = w_next st"
  "w_env (upd_topic tn f st) = w_env st"
  by (simp_all add: upd_topic_def split: option.splits)

lemma queued_fields [simp]:
  "w_topics (queued r ms st) = w_topics st"
  "w_conns (queued r ms st) = w_conns st"
  "w_next (queued r ms st) = w_next st"
  "w_env (queued r ms st) = w_env st"
  by (simp_all add: queued_def split: option.splits)

lemma subscriber_of_simps [simp]:
  "subscriber_of tn cid (conn_Write c f st) = subscriber_of tn cid st"
  "subscriber_of tn cid (conn_Close c code reason st) = subscriber_of tn cid st"
  "subscriber_of tn cid (queued r ms st) = subscriber_of tn cid st"
  by (simp_all add: subscriber_of_def)

lemma queued_Nil [simp]: "queued r [] st = st"
  by (cases "w_subs st r") (simp_all add: queued_def map_upd_triv)

lemma queued_sub:
  "w_subs st r = Some s \<Longrightarrow>
     w_subs (queued r ms st) = (w_subs st)(r \<mapsto> s\<lparr>s_send := (s_send s)\<lparr>ch_buf := ch_buf (s_send s) @ ms\<rparr>\<rparr>)"
  by (simp add: queued_def)

lemma queued_Cons:
  "queued r (m # ms) st = queued r ms (queued r [m] st)"
  by (cases "w_subs st r") (simp_all add: queued_def)

lemma try_send_free:
  assumes "w_subs st r = Some s" "\<not> ch_closed (s_send s)" "length (ch_buf (s_send s)) < ch_cap (s_send s)"
  shows "try_send r m st = Return True (queued r [m] st)"
  using assms by (simp add: try_send_def queued_def)

lemma try_send_full:
  assumes "w_subs st r = Some s" "\<not> ch_closed (s_send s)" "ch_cap (s_send s) \<le> length (ch_buf (s_send s))"
  shows "try_send r m st = Return False st"
  using assms by (simp add: try_send_def)

lemma try_send_closed:
  assumes "w_subs st r = Some s" "ch_closed (s_send s)"
  shows "try_send r m st = Panic SendOnClosedChannel st"
  using assms by (simp add: try_send_def)

lemma replay_fits:
  assumes "w_subs st r = Some s" "\<not> ch_closed (s_send s)"
    "length (ch_buf (s_send s)) + length ms \<le> ch_cap (s_send s)"
  shows "replay r ms st = Return () (queued r ms st)"
  using assms
proof (induction ms arbitrary: st s)
  case Nil
  then show ?case by simp
next
  case (Cons m ms)
  let ?s1 = "s\<lparr>s_send := (s_send s)\<lparr>ch_buf := ch_buf (s_send s) @ [m]\<rparr>\<rparr>"
  have send: "try_send r m st = Return True (queued r [m] st)"
    using Cons.prems by (intro try_send_free) auto
  have s1: "w_subs (queued r [m] st) r = Some ?s1"
    using Cons.prems by (simp add: queued_sub)
  have "replay r ms (queued r [m] st) = Return () (queued r ms (queued r [m] st))"
    using Cons.prems by (intro Cons.IH [OF s1]) auto
  with send show ?case by (simp add: queued_Cons [of r m ms])
qed

lemma replay_closed:
  assumes "w_subs st r = Some s" "ch_closed (s_send s)" "ms \<noteq> []"
  shows "replay r ms st = Panic SendOnClosedChannel st"
  using assms by (cases ms) (simp_all add: try_send_closed)

lemma replay_append:
  assumes "replay r ms1 st = Return () st1"
  shows "replay r (ms1 @ ms2) st = replay r ms2 st1"
  using assms
proof (induction ms1 arbitrary: st)
  case Nil
  then show ?case by simp
next
  case (Cons m ms1)
  show ?case
  proof (cases "try_send r m st")
    case (Panic p st0)
    with Cons.prems show ?thesis by simp
  next
    case (Return b st0)
    show ?thesis
    proof (cases b)
      case True
      with Return Cons.prems Cons.IH [of st0] show ?thesis by simp
    next
      case False
      with Return Cons.prems obtain st2 where
        c: "CloseWithError r ''SLOW_CONSUMER'' ''replay overflow'' st0 = Return () st2"
        and rest: "replay r ms1 st2 = Return () st1"
        by (auto simp: and_then_eq_Return)
      from Cons.IH [OF rest] c Return False show ?thesis by simp
    qed
  qed
qed

lemma CloseWithError_open:
  assumes "w_subs st r = Some s" "\<not> s_closed s" "\<not> ch_closed (s_send s)"
  shows "\<exists>st1. CloseWithError r code reason st = Return () st1 \<and>
           w_subs st1 = (w_subs st)(r \<mapsto> s\<lparr>s_closed := True, s_send := (s_send s)\<lparr>ch_closed := True\<rparr>\<rparr>) \<and>
           w_topics st1 = w_topics st \<and> w_next st1 = w_next st \<and> w_env st1 = w_env st \<and>
           (\<forall>c. c \<noteq> s_conn s \<longrightarrow> w_conns st1 c = w_conns st c) \<and>
           c_closed (w_conns st1 (s_conn s)) \<noteq> None \<and>
           c_sent (w_conns st1 (s_conn s)) =
             c_sent (w_conns st (s_conn s)) @
               (if c_closed (w_conns st (s_conn s)) = None then [error_frame [] code reason] else [])"
  using assms
  by (simp add: CloseWithError_def Close_def conn_Write_def conn_Close_def Let_def)

lemma replay_overflow:
  assumes sub: "w_subs st r = Some s" "\<not> s_closed s" "\<not> ch_closed (s_send s)"
    and room: "length (ch_buf (s_send s)) + k = ch_cap (s_send s)"
    and over: "k < length ms"
  shows "\<exists>st1. CloseWithError r ''SLOW_CONSUMER'' ''replay overflow'' (queued r (take k ms) st) = Return () st1 \<and>
           replay r ms st = (if length ms = Suc k then Return () st1 else Panic SendOnClosedChannel st1)"
proof -
  let ?q = "queued r (take k ms) st"
  let ?sq = "s\<lparr>s_send := (s_send s)\<lparr>ch_buf := ch_buf (s_send s) @ take k ms\<rparr>\<rparr>"
  have split: "ms = take k ms @ (ms ! k) # drop (Suc k) ms"
    using over by (rule id_take_nth_drop)
  have fits: "replay r (take k ms) st = Return () ?q"
    using sub room over by (intro replay_fits) auto
  have sq: "w_subs ?q r = Some ?sq" using sub by (simp add: queued_sub)
  have full: "try_send r (ms ! k) ?q = Return False ?q"
    using sub room over by (intro try_send_full [OF sq]) auto
  from CloseWithError_open [OF sq, of "''SLOW_CONSUMER''" "''replay overflow''"] sub
  obtain st1 where
    c: "CloseWithError r ''SLOW_CONSUMER'' ''replay overflow'' ?q = Return () st1" and
    s1: "w_subs st1 = (w_subs ?q)(r \<mapsto> ?sq\<lparr>s_closed := True, s_send := (s_send ?sq)\<lparr>ch_closed := True\<rparr>\<rparr>)"
    by auto
  have closed: "w_subs st1 r = Some (?sq\<lparr>s_closed := True, s_send := (s_send ?sq)\<lparr>ch_closed := True\<rparr>\<rparr>)"
    by (simp add: s1)
  have rest: "replay r (drop (Suc k) ms) st1 =
      (if length ms = Suc k then Return () st1 else Panic SendOnClosedChannel st1)"
  proof (cases "length ms = Suc k")
    case True
    then show ?thesis by simp
  next
    case False
    with over have "drop (Suc k) ms \<noteq> []" by simp
    from replay_closed [OF closed _ this] False show ?thesis by simp
  qed
  have "replay r ms st = replay r ((ms ! k) # drop (Suc k) ms) ?q"
    using replay_append [OF fits, of "(ms ! k) # drop (Suc k) ms"] split by simp
  also have "\<dots> = replay r (drop (Suc k) ms) st1"
    using full c by simp
  finally show ?thesis using c rest by auto
qed

lemma Close_wf:
  assumes "w_subs st r = Some s" "ch_closed (s_send s) \<longrightarrow> s_closed s"
  shows "Close r st =
     Return () (if s_closed s then st
        else conn_Close (s_conn s) StatusNormalClosure ''subscriber closed''
               (st\<lparr>w_subs := (w_subs st)(r \<mapsto> s\<lparr>s_closed := True, s_send := (s_send s)\<lparr>ch_closed := True\<rparr>\<rparr>)\<rparr>))"
  using assms by (auto simp: Close_def Let_def)

lemma close_existing_fresh:
  assumes wf: "wf_World st"
  shows "\<exists>stm. close_existing tn cid (snd (new_Subscriber cid c st)) = Return () stm \<and>
           w_topics stm = w_topics st \<and>
           w_subs stm (w_next st) = Some (fresh_sub cid c st) \<and>
           w_env stm = w_env st \<and> w_next stm = Suc (w_next st) \<and>
           (\<forall>c'. c_sent (w_conns stm c') = c_sent (w_conns st c')) \<and>
           (c_closed (w_conns stm c) = None \<longleftrightarrow> open_after_register tn cid c st)"
proof -
  define st1 where "st1 = st\<lparr>w_subs := (w_subs st)(w_next st \<mapsto> fresh_sub cid c st), w_next := Suc (w_next st)\<rparr>"
  have new: "snd (new_Subscriber cid c st) = st1"
    by (simp add: new_Subscriber_def fresh_sub_def st1_def)
  have sof: "subscriber_of tn cid st1 = subscriber_of tn cid st"
    by (simp add: st1_def subscriber_of_def)
  have st1_props: "w_topics st1 = w_topics st" "w_subs st1 (w_next st) = Some (fresh_sub cid c st)"
    "w_env st1 = w_env st" "w_next st1 = Suc (w_next st)" "w_conns st1 = w_conns st"
    by (simp_all add: st1_def)
  show ?thesis
  proof (cases "subscriber_of tn cid st")
    case None
    then have "close_existing tn cid st1 = Return () st1"
      by (simp add: close_existing_def sof)
    moreover have "open_after_register tn cid c st \<longleftrightarrow> c_closed (w_conns st c) = None"
      using None by (simp add: open_after_register_def)
    ultimately show ?thesis unfolding new using st1_props by simp
  next
    case (Some old)
    with wf obtain so where so: "w_subs st old = Some so" "old < w_next st"
      "ch_closed (s_send so) \<longrightarrow> s_closed so"
      unfolding wf_World_def by (metis option.exhaust)
    then have so1: "w_subs st1 old = Some so" by (simp add: st1_def)
    have oar: "open_after_register tn cid c st \<longleftrightarrow>
        c_closed (w_conns st c) = None \<and> (s_closed so \<or> s_conn so \<noteq> c)"
      using Some so by (simp add: open_after_register_def)
    have ce: "close_existing tn cid st1 = Close old st1"
      using Some by (simp add: close_existing_def sof)
    show ?thesis
    proof (cases "s_closed so")
      case True
      have "Close old st1 = Return () st1" using Close_wf [OF so1 so(3)] True by simp
      then show ?thesis unfolding new ce using st1_props oar True by simp
    next
      case False
      define st1c where "st1c = conn_Close (s_conn so) StatusNormalClosure ''subscriber closed''
               (st1\<lparr>w_subs := (w_subs st1)(old \<mapsto> so\<lparr>s_closed := True, s_send := (s_send so)\<lparr>ch_closed := True\<rparr>\<rparr>)\<rparr>)"
      have cl: "Close old st1 = Return () st1c"
        using Close_wf [OF so1 so(3)] False by (simp add: st1c_def)
      have t1c: "w_topics st1c = w_topics st" by (simp add: st1c_def st1_props)
      have subs: "w_subs st1c (w_next st) = Some (fresh_sub cid c st)"
        using so(2) by (simp add: st1c_def st1_props)
      have misc: "w_env st1c = w_env st" "w_next st1c = Suc (w_next st)"
        by (simp_all add: st1c_def st1_props)
      have sent: "c_sent (w_conns st1c c') = c_sent (w_conns st c')" for c'
        by (simp add: st1c_def st1_props conn_Close_def)
      have op: "c_closed (w_conns st1c c) = None \<longleftrightarrow> c_closed (w_conns st c) = None \<and> s_conn so \<noteq> c"
        by (auto simp: st1c_def st1_props conn_Close_def)
      show ?thesis unfolding new ce cl using t1c subs misc sent op oar False by simp
    qed
  qed
qed

lemma register_fresh:
  assumes wf: "wf_World st" and topic: "w_topics st tn = Some topic"
  shows "\<exists>st2. register tn cid (w_next st) (snd (new_Subscriber cid c st)) = Return () st2 \<and>
           w_subs st2 (w_next st) = Some (fresh_sub cid c st) \<and>
           subscriber_of tn cid st2 = Some (w_next st) \<and>
           w_env st2 = w_env st \<and> w_next st2 = Suc (w_next st) \<and>
           (\<forall>c'. c_sent (w_conns st2 c') = c_sent (w_conns st c')) \<and>
           (c_closed (w_conns st2 c) = None \<longleftrightarrow> open_after_register tn cid c st)"
proof -
  from close_existing_fresh [OF wf, of tn cid c] obtain stm where
    ce: "close_existing tn cid (snd (new_Subscriber cid c st)) = Return () stm" and
    p: "w_topics stm = w_topics st" "w_subs stm (w_next st) = Some (fresh_sub cid c st)"
       "w_env stm = w_env st" "w_next stm = Suc (w_next st)"
       "\<And>c'. c_sent (w_conns stm c') = c_sent (w_conns st c')"
       "c_closed (w_conns stm c) = None \<longleftrightarrow> open_after_register tn cid c st"
    by auto
  have tm: "w_topics stm tn = Some topic" using p(1) topic by simp
  have "register tn cid (w_next st) (snd (new_Subscriber cid c st)) =
          Return () (bind_subscriber tn cid (w_next st) stm)"
    by (simp add: register_def ce)
  moreover have "subscriber_of tn cid (bind_subscriber tn cid (w_next st) stm) = Some (w_next st)"
    by (simp add: bind_subscriber_def upd_topic_def tm subscriber_of_def)
  ultimately show ?thesis using p by (simp add: bind_subscriber_def)
qed

lemma subscribe_overflow:
  assumes wf: "wf_World st"
    and valid: "in_Topic i \<noteq> []" "in_ClientID i \<noteq> []"
    and topic: "w_topics st (in_Topic i) = Some topic"
    and lastn: "0 < in_LastN i" "LastN (t_history topic) (in_LastN i) = Inr ms"
    and over: "subscriberQueueSize (w_env st) < length ms"
  shows "\<exists>st1. handle_subscribe c i st =
             (if length ms = Suc (subscriberQueueSize (w_env st)) then Return () st1
              else Panic SendOnClosedChannel st1) \<and>
           w_subs st1 (w_next st) =
             Some \<lparr>s_id = in_ClientID i,
                   s_send = \<lparr>ch_buf = take (subscriberQueueSize (w_env st)) ms,
                             ch_cap = subscriberQueueSize (w_env st), ch_closed = True\<rparr>,
                   s_conn = c, s_closed = True\<rparr> \<and>
           subscriber_of (in_Topic i) (in_ClientID i) st1 = Some (w_next st) \<and>
           c_closed (w_conns st1 c) \<noteq> None \<and>
           c_sent (w_conns st1 c) =
             c_sent (w_conns st c) @
               (if open_after_register (in_Topic i) (in_ClientID i) c st
                then [error_frame [] ''SLOW_CONSUMER'' ''replay overflow''] else [])"
proof -
  let ?r = "w_next st" and ?cap = "subscriberQueueSize (w_env st)"
  let ?f = "fresh_sub (in_ClientID i) c st"
  from register_fresh [OF wf topic, of "in_ClientID i" c] obtain st2 where
    reg: "register (in_Topic i) (in_ClientID i) ?r (snd (new_Subscriber (in_ClientID i) c st)) = Return () st2"
    and p: "w_subs st2 ?r = Some ?f" "subscriber_of (in_Topic i) (in_ClientID i) st2 = Some ?r"
       "\<And>c'. c_sent (w_conns st2 c') = c_sent (w_conns st c')"
       "c_closed (w_conns st2 c) = None \<longleftrightarrow> open_after_register (in_Topic i) (in_ClientID i) c st"
    by auto
  have f: "\<not> s_closed ?f" "\<not> ch_closed (s_send ?f)" "length (ch_buf (s_send ?f)) + ?cap = ch_cap (s_send ?f)"
    "s_conn ?f = c"
    by (simp_all add: fresh_sub_def)
  let ?q = "queued ?r (take ?cap ms) st2"
  let ?sq = "?f\<lparr>s_send := (s_send ?f)\<lparr>ch_buf := ch_buf (s_send ?f) @ take ?cap ms\<rparr>\<rparr>"
  from replay_overflow [OF p(1) f(1,2,3) over] obtain st1 where
    cwe: "CloseWithError ?r ''SLOW_CONSUMER'' ''replay overflow'' ?q = Return () st1" and
    rep: "replay ?r ms st2 = (if length ms = Suc ?cap then Return () st1 else Panic SendOnClosedChannel st1)"
    by blast
  have sq: "w_subs ?q ?r = Some ?sq" using p(1) by (simp add: queued_sub)
  have sqo: "\<not> s_closed ?sq" "\<not> ch_closed (s_send ?sq)" "s_conn ?sq = c"
    by (simp_all add: fresh_sub_def)
  from CloseWithError_open [OF sq sqo(1,2), of "''SLOW_CONSUMER''" "''replay overflow''"] cwe
  have e: "w_subs st1 = (w_subs ?q)(?r \<mapsto> ?sq\<lparr>s_closed := True, s_send := (s_send ?sq)\<lparr>ch_closed := True\<rparr>\<rparr>)"
    "w_topics st1 = w_topics ?q"
    "c_closed (w_conns st1 c) \<noteq> None"
    "c_sent (w_conns st1 c) = c_sent (w_conns ?q c) @
         (if c_closed (w_conns ?q c) = None then [error_frame [] ''SLOW_CONSUMER'' ''replay overflow''] else [])"
    unfolding sqo(3) by auto
  have sub1: "w_subs st1 ?r =
             Some \<lparr>s_id = in_ClientID i,
                   s_send = \<lparr>ch_buf = take ?cap ms, ch_cap = ?cap, ch_closed = True\<rparr>,
                   s_conn = c, s_closed = True\<rparr>"
    by (simp add: e(1) fresh_sub_def)
  have reg1: "subscriber_of (in_Topic i) (in_ClientID i) st1 = Some ?r"
    using p(2) e(2) by (simp add: subscriber_of_def)
  have sent1: "c_sent (w_conns st1 c) = c_sent (w_conns st c) @
               (if open_after_register (in_Topic i) (in_ClientID i) c st
                then [error_frame [] ''SLOW_CONSUMER'' ''replay overflow''] else [])"
    using e(4) p(3) p(4) by simp
  have ack: "conn_Write c f st1 = st1" for f
    using e(3) by (auto simp: conn_Write_def)
  have "handle_subscribe c i st =
          (if length ms = Suc ?cap then Return () st1 else Panic SendOnClosedChannel st1)"
    using valid topic lastn reg rep
    by (simp add: handle_subscribe_def new_Subscriber_def split_def ack)
  then show ?thesis using sub1 reg1 e(3) sent1 by blast
qed

subsection \<open>The example process\<close>

lemma ex_hist_Add:
  "Add (ex_hist []) (ex_msg ''m1'') = Inr (ex_hist [ex_msg ''m1''])"
  "Add (ex_hist [ex_msg ''m1'']) (ex_msg ''m2'') = Inr (ex_hist [ex_msg ''m1'', ex_msg ''m2''])"
  "Add (ex_hist [ex_msg ''m1'', ex_msg ''m2'']) (ex_msg ''m3'') =
     Inr (ex_hist [ex_msg ''m1'', ex_msg ''m2'', ex_msg ''m3''])"
  by code_simp+

lemma ex_hist_New: "NewRingBuffer 100 = Inr (ex_hist [])"
  by (simp add: NewRingBuffer_def ex_hist_def)

lemma ex_hist_LastN:
  "LastN (ex_hist [ex_msg ''m1'', ex_msg ''m2'', ex_msg ''m3'']) 2 = Inr [ex_msg ''m2'', ex_msg ''m3'']"
  "LastN (ex_hist [ex_msg ''m1'', ex_msg ''m2'', ex_msg ''m3'']) 3 =
     Inr [ex_msg ''m1'', ex_msg ''m2'', ex_msg ''m3'']"
  by code_simp+

lemma ex_queue_size: "subscriberQueueSize ex_env_q1 = 1"
  by (simp add: subscriberQueueSize_def ex_env_q1_def Atoi_def is_digit_def)

lemma incr_int64_small: "incr_int64 0 = 1" "incr_int64 1 = 2" "incr_int64 2 = 3" "incr_int64 3 = 4"
  by (simp_all add: incr_int64_def)

lemma ex_pub_World_reached:
  "read_loop 0 [(publish_frame ''t'' ''m1'', []), (publish_frame ''t'' ''m2'', []),
                (publish_frame ''t'' ''m3'', [])]
     (final_state (CreateTopic ''t'' (init_World ex_env_q1))) = Return () ex_pub_World"
  by (simp add: CreateTopic_def ex_hist_New init_World_def final_state_def handle_def
        handle_publish_def publish_frame_def publishToTopic_def upd_topic_def ex_hist_Add
        ex_msg_def [symmetric] incr_int64_small conn_Write_def ex_pub_World_def)

lemma ex_pub_World_wf: "wf_World ex_pub_World"
  by (simp add: wf_World_def ex_pub_World_def subscriber_of_def)


section \<open>What the handler's steps preserve\<close>

lemma evolves_refl [simp]: "evolves st st"
  by (simp add: evolves_def)

lemma evolves_trans:
  assumes "evolves st st1" "evolves st1 st2"
  shows "evolves st st2"
  unfolding evolves_def
proof (intro conjI allI impI)
  show "w_topics st2 = w_topics st" "w_next st2 = w_next st" "w_env st2 = w_env st"
    using assms by (simp_all add: evolves_def)
next
  fix r assume "w_subs st r = None"
  then have "w_subs st1 r = None" using assms(1) by (simp add: evolves_def)
  then show "w_subs st2 r = None" using assms(2) by (simp add: evolves_def)
next
  fix r s assume "w_subs st r = Some s"
  then obtain s1 where s1: "w_subs st1 r = Some s1" "s_id s1 = s_id s" "s_conn s1 = s_conn s"
    "s_closed s \<longrightarrow> s_closed s1" "ch_closed (s_send s) \<longrightarrow> ch_closed (s_send s1)"
    "ch_closed (s_send s1) \<longrightarrow> s_closed s1 \<or> ch_closed (s_send s)"
    using assms(1) unfolding evolves_def by blast
  from s1(1) obtain s2 where s2: "w_subs st2 r = Some s2" "s_id s2 = s_id s1" "s_conn s2 = s_conn s1"
    "s_closed s1 \<longrightarrow> s_closed s2" "ch_closed (s_send s1) \<longrightarrow> ch_closed (s_send s2)"
    "ch_closed (s_send s2) \<longrightarrow> s_closed s2 \<or> ch_closed (s_send s1)"
    using assms(2) unfolding evolves_def by blast
  show "\<exists>s1. w_subs st2 r = Some s1 \<and> s_id s1 = s_id s \<and> s_conn s1 = s_conn s \<and>
              (s_closed s \<longrightarrow> s_closed s1) \<and>
              (ch_closed (s_send s) \<longrightarrow> ch_closed (s_send s1)) \<and>
              (ch_closed (s_send s1) \<longrightarrow> s_closed s1 \<or> ch_closed (s_send s))"
    using s1 s2 by auto
qed

lemma evolves_conn_Write [simp]: "evolves st (conn_Write c f st)"
  by (simp add: evolves_def)

lemma evolves_conn_Close [simp]: "evolves st (conn_Close c code reason st)"
  by (simp add: evolves_def)

lemma evolves_Close: "evolves st (final_state (Close r st))"
  by (auto simp: Close_def final_state_def evolves_def Let_def split: option.splits)

lemma evolves_CloseWithError: "evolves st (final_state (CloseWithError r code reason st))"
proof (cases "w_subs st r")
  case None
  then show ?thesis by (simp add: CloseWithError_def final_state_def)
next
  case (Some s)
  have "evolves (conn_Write (s_conn s) (error_frame [] code reason) st)
          (final_state (Close r (conn_Write (s_conn s) (error_frame [] code reason) st)))"
    by (rule evolves_Close)
  then show ?thesis
    using Some evolves_trans [OF evolves_conn_Write] by (simp add: CloseWithError_def)
qed

lemma evolves_try_send: "evolves st (final_state (try_send r m st))"
  by (auto simp: try_send_def final_state_def evolves_def split: option.splits)

lemma final_state_simps [simp]:
  "final_state (Return v st) = st" "final_state (Panic p st) = st"
  by (simp_all add: final_state_def)

lemma final_state_and_then:
  "final_state (and_then x f) = (case x of Return _ st \<Rightarrow> final_state (f st) | Panic _ st \<Rightarrow> st)"
  by (cases x) simp_all

lemma evolves_and_then:
  assumes "evolves st (final_state x)" "\<And>st1. x = Return () st1 \<Longrightarrow> evolves st1 (final_state (f st1))"
  shows "evolves st (final_state (and_then x f))"
proof (cases x)
  case (Return u st1)
  with assms(1) assms(2) [of st1] show ?thesis by (auto intro: evolves_trans)
next
  case (Panic p st1)
  with assms(1) show ?thesis by simp
qed

lemma evolves_replay: "evolves st (final_state (replay r ms st))"
proof (induction ms arbitrary: st)
  case Nil
  show ?case by simp
next
  case (Cons m ms)
  have ts: "evolves st (final_state (try_send r m st))" by (rule evolves_try_send)
  show ?case
  proof (cases "try_send r m st")
    case (Panic p st1)
    with ts show ?thesis by simp
  next
    case (Return b st1)
    with ts have e1: "evolves st st1" by simp
    show ?thesis
    proof (cases b)
      case True
      with Return show ?thesis using evolves_trans [OF e1 Cons.IH [of st1]] by simp
    next
      case False
      have "evolves st1 (final_state (and_then (CloseWithError r ''SLOW_CONSUMER'' ''replay overflow'' st1) (replay r ms)))"
        by (rule evolves_and_then [OF evolves_CloseWithError]) (rule Cons.IH)
      with Return False show ?thesis using evolves_trans [OF e1] by simp
    qed
  qed
qed

lemma Return_final_state: "x = Return v st1 \<Longrightarrow> final_state x = st1"
  by simp

lemma evolves_close_existing: "evolves st (final_state (close_existing tn cid st))"
  by (cases "subscriber_of tn cid st") (simp_all add: close_existing_def evolves_Close)

lemma close_existing_Return:
  assumes "close_existing tn cid st = Return () mid"
  shows "evolves st mid"
    and "\<And>old. subscriber_of tn cid st = Some old \<Longrightarrow> \<exists>so. w_subs mid old = Some so \<and> s_closed so"
proof -
  show "evolves st mid"
    using evolves_close_existing [of st tn cid] assms by simp
  fix old assume "subscriber_of tn cid st = Some old"
  with assms have "Close old st = Return () mid" by (simp add: close_existing_def)
  then show "\<exists>so. w_subs mid old = Some so \<and> s_closed so" by (rule Close_Return_closed)
qed

lemma evolves_sub:
  assumes "evolves st st1" "w_subs st r = Some s"
  shows "\<exists>s1. w_subs st1 r = Some s1 \<and> s_id s1 = s_id s \<and> s_conn s1 = s_conn s \<and>
           (s_closed s \<longrightarrow> s_closed s1)"
  using assms unfolding evolves_def by blast

lemma subscribe_Return:
  assumes valid: "in_Topic i \<noteq> []" "in_ClientID i \<noteq> []"
    and topic: "w_topics st (in_Topic i) = Some topic"
    and ret: "handle_subscribe c i st = Return () st1"
  shows "\<exists>mid.
           close_existing (in_Topic i) (in_ClientID i) (snd (new_Subscriber (in_ClientID i) c st)) =
             Return () mid \<and>
           subscriber_of (in_Topic i) (in_ClientID i) mid = subscriber_of (in_Topic i) (in_ClientID i) st \<and>
           (\<forall>old. subscriber_of (in_Topic i) (in_ClientID i) st = Some old \<longrightarrow>
              (\<exists>so. w_subs mid old = Some so \<and> s_closed so) \<and>
              (\<exists>so. w_subs st1 old = Some so \<and> s_closed so)) \<and>
           register (in_Topic i) (in_ClientID i) (w_next st) (snd (new_Subscriber (in_ClientID i) c st)) =
             Return () (bind_subscriber (in_Topic i) (in_ClientID i) (w_next st) mid) \<and>
           evolves (bind_subscriber (in_Topic i) (in_ClientID i) (w_next st) mid) st1 \<and>
           w_next st1 = Suc (w_next st) \<and>
           w_topics st1 = (w_topics st)(in_Topic i \<mapsto>
              topic\<lparr>t_subscribers := (t_subscribers topic)(in_ClientID i \<mapsto> w_next st)\<rparr>) \<and>
           (\<exists>s. w_subs st1 (w_next st) = Some s \<and> s_id s = in_ClientID i \<and> s_conn s = c)"
proof -
  let ?T = "in_Topic i" and ?C = "in_ClientID i" and ?r = "w_next st"
  define stn where "stn = snd (new_Subscriber ?C c st)"
  have stn: "w_topics stn = w_topics st" "w_next stn = Suc ?r" "w_subs stn ?r = Some (fresh_sub ?C c st)"
    "subscriber_of ?T ?C stn = subscriber_of ?T ?C st"
    by (simp_all add: stn_def new_Subscriber_def fresh_sub_def subscriber_of_def)
  define rp where "rp = (\<lambda>st2. if in_LastN i > 0
                         then (case LastN (t_history topic) (in_LastN i) of
                                 Inl p \<Rightarrow> Panic p st2
                               | Inr ms \<Rightarrow> replay ?r ms st2)
                         else Return () st2)"
  have h: "handle_subscribe c i st =
      and_then (register ?T ?C ?r stn)
        (\<lambda>st2. and_then (rp st2) (\<lambda>st3. Return () (conn_Write c (ack_frame (in_RequestID i) (t_name topic)) st3)))"
    using valid topic by (simp add: handle_subscribe_def new_Subscriber_def stn_def rp_def)
  from ret obtain st2 st3 where
    reg: "register ?T ?C ?r stn = Return () st2" and
    rep: "rp st2 = Return () st3" and
    fin: "st1 = conn_Write c (ack_frame (in_RequestID i) (t_name topic)) st3"
    unfolding h by (auto simp: and_then_eq_Return)
  from reg obtain mid where
    ce: "close_existing ?T ?C stn = Return () mid" and
    st2: "st2 = bind_subscriber ?T ?C ?r mid"
    by (auto simp: register_def and_then_eq_Return)
  note e_mid = close_existing_Return(1) [OF ce]
  have mid: "w_topics mid = w_topics st" "w_next mid = Suc ?r"
    using e_mid stn by (simp_all add: evolves_def)
  have e_rep: "evolves st2 st3"
  proof (cases "in_LastN i > 0")
    case False
    with rep show ?thesis by (simp add: rp_def)
  next
    case True
    with rep obtain ms where "replay ?r ms st2 = Return () st3"
      by (auto simp: rp_def split: sum.splits)
    with evolves_replay [of st2 ?r ms] show ?thesis by simp
  qed
  have e_fin: "evolves st2 st1"
    unfolding fin by (rule evolves_trans [OF e_rep evolves_conn_Write])
  have subs2: "w_subs st2 = w_subs mid" by (simp add: st2 bind_subscriber_def)
  have topics2: "w_topics st2 = (w_topics st)(?T \<mapsto>
              topic\<lparr>t_subscribers := (t_subscribers topic)(?C \<mapsto> ?r)\<rparr>)"
    using topic by (simp add: st2 bind_subscriber_def upd_topic_def mid)
  have next2: "w_next st2 = Suc ?r" by (simp add: st2 bind_subscriber_def mid)
  have old_closed: "(\<exists>so. w_subs mid old = Some so \<and> s_closed so) \<and>
              (\<exists>so. w_subs st1 old = Some so \<and> s_closed so)"
    if "subscriber_of ?T ?C st = Some old" for old
  proof -
    from close_existing_Return(2) [OF ce, of old] that stn(4)
    obtain so where so: "w_subs mid old = Some so" "s_closed so" by auto
    then have "w_subs st2 old = Some so" by (simp add: subs2)
    from evolves_sub [OF e_fin this] so show ?thesis by auto
  qed
  have new: "\<exists>s. w_subs st1 ?r = Some s \<and> s_id s = ?C \<and> s_conn s = c"
  proof -
    from evolves_sub [OF e_mid stn(3)] obtain sm where
      "w_subs mid ?r = Some sm" "s_id sm = ?C" "s_conn sm = c"
      by (auto simp: fresh_sub_def)
    then have "w_subs st2 ?r = Some sm" "s_id sm = ?C" "s_conn sm = c" by (simp_all add: subs2)
    from evolves_sub [OF e_fin this(1)] this(2,3) show ?thesis by auto
  qed
  have sof_mid: "subscriber_of ?T ?C mid = subscriber_of ?T ?C st"
    by (simp add: subscriber_of_def mid)
  have "w_next st1 = Suc ?r" "w_topics st1 = (w_topics st)(?T \<mapsto>
              topic\<lparr>t_subscribers := (t_subscribers topic)(?C \<mapsto> ?r)\<rparr>)"
    using e_fin next2 topics2 by (simp_all add: evolves_def)
  then show ?thesis
    using ce sof_mid old_closed new reg st2 e_fin unfolding stn_def by blast
qed

section \<open>The fan-out loop\<close>

text \<open>
  The non-blocking send of the fan-out does not guard against a closed channel: the loop
  panics at the first registered subscriber whose send channel is closed, and the
  subscribers after it in the iteration are not visited.
\<close>

lemma fanout_closed_head:
  assumes "subscriber_of tn cid st = Some r" "w_subs st r = Some s" "ch_closed (s_send s)"
  shows "fanout tn m (cid # cids) st = Panic SendOnClosedChannel st"
  using assms by (simp add: try_send_closed)

lemma publishToTopic_closed_head:
  assumes "w_topics st tn = Some t" "Add (t_history t) m = Inr h"
    and "t_subscribers t cid = Some r" "w_subs st r = Some s" "ch_closed (s_send s)"
  shows "publishToTopic tn m (cid # cids) st =
           Panic SendOnClosedChannel (upd_topic tn (\<lambda>t. t\<lparr>t_history := h\<rparr>) st)"
proof -
  let ?st0 = "upd_topic tn (\<lambda>t. t\<lparr>t_history := h\<rparr>) st"
  have "subscriber_of tn cid ?st0 = Some r" "w_subs ?st0 r = Some s"
    using assms by (simp_all add: subscriber_of_def upd_topic_def)
  from fanout_closed_head [OF this assms(5)] show ?thesis
    using assms(1,2) by (simp add: publishToTopic_def)
qed

subsection \<open>The example processes with subscribers\<close>

lemma ex_hist_LastN1:
  "LastN (ex_hist [ex_msg ''m1'', ex_msg ''m2'', ex_msg ''m3'']) 1 = Inr [ex_msg ''m3'']"
  by code_simp

lemma ex_hist_Add4:
  "Add (ex_hist [ex_msg ''m1'', ex_msg ''m2'', ex_msg ''m3'']) (ex_msg ''m4'') =
     Inr (ex_hist [ex_msg ''m1'', ex_msg ''m2'', ex_msg ''m3'', ex_msg ''m4''])"
  by code_simp

lemmas handler_defs =
  handle_def handle_subscribe_def subscribe_frame_def new_Subscriber_def register_def
  close_existing_def bind_subscriber_def upd_topic_def subscriber_of_def ex_queue_size Close_def
  CloseWithError_def conn_Close_def conn_Write_def try_send_def wsHandler_def close_each_empty
  StatusNormalClosure_def

lemma ex_stale_World_eq:
  "ex_stale_World =
     ex_pub_World
       \<lparr>w_topics := [''t'' \<mapsto> \<lparr>t_name = ''t'',
                              t_subscribers = [''a'' \<mapsto> 0, ''b'' \<mapsto> 1, ''c'' \<mapsto> 2],
                              t_history = ex_hist [ex_msg ''m1'', ex_msg ''m2'', ex_msg ''m3''],
                              t_msgCount = 3\<rparr>],
        w_subs := [0 \<mapsto> \<lparr>s_id = ''a'',
                           s_send = \<lparr>ch_buf = [ex_msg ''m3''], ch_cap = 1, ch_closed = False\<rparr>,
                           s_conn = 1, s_closed = False\<rparr>,
                   1 \<mapsto> \<lparr>s_id = ''b'',
                           s_send = \<lparr>ch_buf = [ex_msg ''m2''], ch_cap = 1, ch_closed = True\<rparr>,
                           s_conn = 2, s_closed = True\<rparr>,
                   2 \<mapsto> \<lparr>s_id = ''c'',
                           s_send = \<lparr>ch_buf = [], ch_cap = 1, ch_closed = False\<rparr>,
                           s_conn = 3, s_closed = False\<rparr>],
        w_next := 3,
        w_conns := (w_conns ex_pub_World)
           (1 := \<lparr>c_sent = [ack_frame ''r'' ''t''], c_closed = None\<rparr>,
            2 := \<lparr>c_sent = [error_frame [] ''SLOW_CONSUMER'' ''replay overflow''],
                   c_closed = Some (1000, ''subscriber closed'')\<rparr>,
            3 := \<lparr>c_sent = [ack_frame ''r'' ''t''], c_closed = None\<rparr>)\<rparr>"
  by (simp add: ex_stale_World_def ex_pub_World_def handler_defs ex_hist_LastN ex_hist_LastN1
        numeral_2_eq_2 numeral_3_eq_3)

section \<open>Well-formed states are preserved\<close>

text \<open>
  A process starts in a well-formed state, and every entry point leaves the state
  well-formed, whether it returns or panics: the HTTP handler that creates topics, the
  dispatch of a frame, a whole session, and the graceful close.
\<close>

lemma wf_World_init: "wf_World (init_World env)"
  by (simp add: wf_World_def init_World_def subscriber_of_def)

lemma wf_World_evolves:
  assumes wf: "wf_World st" and ev: "evolves st st1"
  shows "wf_World st1"
proof -
  have A: "r < w_next st1 \<and> (ch_closed (s_send s1) \<longrightarrow> s_closed s1)"
    if s1: "w_subs st1 r = Some s1" for r s1
  proof -
    have "w_subs st r \<noteq> None" using ev s1 unfolding evolves_def by force
    then obtain s where s: "w_subs st r = Some s" by auto
    with ev s1 have rel: "s_closed s \<longrightarrow> s_closed s1"
      "ch_closed (s_send s1) \<longrightarrow> s_closed s1 \<or> ch_closed (s_send s)"
      unfolding evolves_def by force+
    from wf s have old: "r < w_next st" "ch_closed (s_send s) \<longrightarrow> s_closed s"
      unfolding wf_World_def by blast+
    show ?thesis using old rel ev by (auto simp: evolves_def)
  qed
  have B: "w_subs st1 r \<noteq> None" if "subscriber_of tn cid st1 = Some r" for tn cid r
  proof -
    from that have "subscriber_of tn cid st = Some r"
      using ev by (simp add: subscriber_of_def evolves_def)
    with wf obtain s where "w_subs st r = Some s" unfolding wf_World_def by blast
    with ev show ?thesis unfolding evolves_def by force
  qed
  show ?thesis unfolding wf_World_def using A B by blast
qed

lemma wf_World_and_then:
  assumes "wf_World (final_state x)" "\<And>st1. x = Return () st1 \<Longrightarrow> wf_World (final_state (f st1))"
  shows "wf_World (final_state (and_then x f))"
  using assms by (cases x) simp_all

lemma wf_World_conn_Write [simp]: "wf_World (conn_Write c f st) = wf_World st"
  by (simp add: wf_World_def)

lemma wf_World_conn_Close [simp]: "wf_World (conn_Close c code reason st) = wf_World st"
  by (simp add: wf_World_def)

lemma wf_World_new_Subscriber:
  assumes "wf_World st"
  shows "wf_World (snd (new_Subscriber cid c st))"
  using assms unfolding wf_World_def new_Subscriber_def
  by (auto simp: subscriber_of_def less_Suc_eq split: option.splits)

lemma wf_World_bind_subscriber:
  assumes "wf_World st" "w_subs st r \<noteq> None"
  shows "wf_World (bind_subscriber tn cid r st)"
  using assms unfolding wf_World_def bind_subscriber_def
  by (auto simp: subscriber_of_def upd_topic_def split: option.splits if_splits)

lemma wf_World_unbind:
  assumes "wf_World st"
  shows "wf_World (upd_topic tn (\<lambda>t. t\<lparr>t_subscribers := (t_subscribers t)(cid := None)\<rparr>) st)"
  using assms unfolding wf_World_def
  by (auto simp: subscriber_of_def upd_topic_def split: option.splits if_splits)

lemma wf_World_upd_history:
  assumes "wf_World st"
  shows "wf_World (upd_topic tn (\<lambda>t. t\<lparr>t_history := h\<rparr>) st)"
  using assms unfolding wf_World_def
  by (auto simp: subscriber_of_def upd_topic_def split: option.splits if_splits)

lemma wf_World_upd_msgCount:
  assumes "wf_World st"
  shows "wf_World (upd_topic tn (\<lambda>t. t\<lparr>t_msgCount := n t\<rparr>) st)"
  using assms unfolding wf_World_def
  by (auto simp: subscriber_of_def upd_topic_def split: option.splits if_splits)

lemma wf_World_CreateTopic:
  assumes "wf_World st"
  shows "wf_World (final_state (CreateTopic name st))"
  using assms unfolding wf_World_def
  by (auto simp: CreateTopic_def NewRingBuffer_def subscriber_of_def split: option.splits if_splits)

lemma wf_World_handle_subscribe:
  assumes wf: "wf_World st"
  shows "wf_World (final_state (handle_subscribe c i st))"
proof (cases "in_Topic i = [] \<or> in_ClientID i = []")
  case True
  with wf show ?thesis by (simp add: handle_subscribe_def)
next
  case valid: False
  show ?thesis
  proof (cases "w_topics st (in_Topic i)")
    case None
    with valid wf show ?thesis by (simp add: handle_subscribe_def)
  next
    case (Some topic)
    let ?T = "in_Topic i" and ?C = "in_ClientID i" and ?r = "w_next st"
    define stn where "stn = snd (new_Subscriber ?C c st)"
    have wfn: "wf_World stn" unfolding stn_def by (rule wf_World_new_Subscriber [OF wf])
    have newsub: "w_subs stn ?r \<noteq> None" by (simp add: stn_def new_Subscriber_def)
    define rp where "rp = (\<lambda>st2. if in_LastN i > 0
                         then (case LastN (t_history topic) (in_LastN i) of
                                 Inl p \<Rightarrow> Panic p st2
                               | Inr ms \<Rightarrow> replay ?r ms st2)
                         else Return () st2)"
    have h: "handle_subscribe c i st =
      and_then (register ?T ?C ?r stn)
        (\<lambda>st2. and_then (rp st2) (\<lambda>st3. Return () (conn_Write c (ack_frame (in_RequestID i) (t_name topic)) st3)))"
      using valid Some by (simp add: handle_subscribe_def new_Subscriber_def stn_def rp_def)
    have ce: "wf_World (final_state (close_existing ?T ?C stn))"
      by (rule wf_World_evolves [OF wfn evolves_close_existing])
    have reg: "wf_World (final_state (register ?T ?C ?r stn))"
      unfolding register_def
    proof (rule wf_World_and_then [OF ce])
      fix mid assume m: "close_existing ?T ?C stn = Return () mid"
      then have wfm: "wf_World mid" using ce by simp
      have "evolves stn mid" using close_existing_Return(1) [OF m] .
      then have "w_subs mid ?r \<noteq> None" using newsub unfolding evolves_def by force
      then show "wf_World (final_state (Return () (bind_subscriber ?T ?C ?r mid)))"
        using wfm by (simp add: wf_World_bind_subscriber)
    qed
    have rep: "wf_World (final_state (rp st2))" if "wf_World st2" for st2
    proof (cases "in_LastN i > 0")
      case False
      with that show ?thesis by (simp add: rp_def)
    next
      case True
      show ?thesis
      proof (cases "LastN (t_history topic) (in_LastN i)")
        case (Inl p)
        with True that show ?thesis by (simp add: rp_def)
      next
        case (Inr ms)
        with True have "rp st2 = replay ?r ms st2" by (simp add: rp_def)
        then show ?thesis using wf_World_evolves [OF that evolves_replay] by simp
      qed
    qed
    show ?thesis
      unfolding h
    proof (rule wf_World_and_then [OF reg])
      fix st2 assume "register ?T ?C ?r stn = Return () st2"
      then have wf2: "wf_World st2" using reg by simp
      show "wf_World (final_state (and_then (rp st2)
               (\<lambda>st3. Return () (conn_Write c (ack_frame (in_RequestID i) (t_name topic)) st3))))"
      proof (rule wf_World_and_then [OF rep [OF wf2]])
        fix st3 assume "rp st2 = Return () st3"
        then have "wf_World st3" using rep [OF wf2] by simp
        then show "wf_World (final_state (Return ()
               (conn_Write c (ack_frame (in_RequestID i) (t_name topic)) st3)))"
          by simp
      qed
    qed
  qed
qed

lemma wf_World_Close:
  assumes "wf_World st"
  shows "wf_World (final_state (Close r st))"
  by (rule wf_World_evolves [OF assms evolves_Close])

lemma wf_World_handle_unsubscribe:
  assumes wf: "wf_World st"
  shows "wf_World (final_state (handle_unsubscribe c i st))"
proof (cases "in_Topic i = [] \<or> in_ClientID i = []")
  case True
  with wf show ?thesis by (simp add: handle_unsubscribe_def)
next
  case False
  have inner: "wf_World (final_state
          (case subscriber_of (in_Topic i) (in_ClientID i) st of
             None \<Rightarrow> Return () st
           | Some r \<Rightarrow>
               and_then (Close r st)
                 (\<lambda>st1. Return ()
                    (upd_topic (in_Topic i)
                       (\<lambda>t. t\<lparr>t_subscribers := (t_subscribers t)(in_ClientID i := None)\<rparr>) st1))))"
  proof (cases "subscriber_of (in_Topic i) (in_ClientID i) st")
    case None
    with wf show ?thesis by simp
  next
    case (Some r)
    have "wf_World (final_state (and_then (Close r st)
                 (\<lambda>st1. Return ()
                    (upd_topic (in_Topic i)
                       (\<lambda>t. t\<lparr>t_subscribers := (t_subscribers t)(in_ClientID i := None)\<rparr>) st1))))"
    proof (rule wf_World_and_then [OF wf_World_Close [OF wf]])
      fix st1 assume "Close r st = Return () st1"
      then have "wf_World st1" using wf_World_Close [OF wf, of r] by simp
      then show "wf_World (final_state (Return ()
                    (upd_topic (in_Topic i)
                       (\<lambda>t. t\<lparr>t_subscribers := (t_subscribers t)(in_ClientID i := None)\<rparr>) st1)))"
        by (simp add: wf_World_unbind)
    qed
    with Some show ?thesis by simp
  qed
  show ?thesis
    using False unfolding handle_unsubscribe_def
    by (simp, intro wf_World_and_then [OF inner]) (use inner in simp)
qed

lemma wf_World_try_send:
  assumes "wf_World st"
  shows "wf_World (final_state (try_send r m st))"
  by (rule wf_World_evolves [OF assms evolves_try_send])

lemma wf_World_fanout:
  assumes "wf_World st"
  shows "wf_World (final_state (fanout tn m cids st))"
  using assms
proof (induction cids arbitrary: st)
  case Nil
  then show ?case by simp
next
  case (Cons cid cids)
  show ?case
  proof (cases "subscriber_of tn cid st")
    case None
    with Cons show ?thesis by simp
  next
    case (Some r)
    note ts = wf_World_try_send [OF Cons.prems, of r m]
    show ?thesis
    proof (cases "try_send r m st")
      case (Panic p st1)
      with Some ts show ?thesis by simp
    next
      case (Return b st1)
      with ts have wf1: "wf_World st1" by simp
      show ?thesis
      proof (cases b)
        case True
        with Some Return Cons.IH [OF wf1] show ?thesis by simp
      next
        case False
        show ?thesis
        proof (cases "w_subs st1 r")
          case None
          with Some Return False wf1 show ?thesis by simp
        next
          case (Some s)
          let ?w = "conn_Write (s_conn s) (error_frame [] ''SLOW_CONSUMER'' ''subscriber queue overflow'') st1"
          have wfw: "wf_World ?w" using wf1 by simp
          have "wf_World (final_state (and_then (Close r ?w)
                  (\<lambda>st2. fanout tn m cids
                     (upd_topic tn (\<lambda>t. t\<lparr>t_subscribers := (t_subscribers t)(cid := None)\<rparr>) st2))))"
          proof (rule wf_World_and_then [OF wf_World_Close [OF wfw]])
            fix st2 assume "Close r ?w = Return () st2"
            then have "wf_World st2" using wf_World_Close [OF wfw, of r] by simp
            then have "wf_World (upd_topic tn (\<lambda>t. t\<lparr>t_subscribers := (t_subscribers t)(cid := None)\<rparr>) st2)"
              by (rule wf_World_unbind)
            then show "wf_World (final_state (fanout tn m cids
                     (upd_topic tn (\<lambda>t. t\<lparr>t_subscribers := (t_subscribers t)(cid := None)\<rparr>) st2)))"
              by (rule Cons.IH)
          qed
          with \<open>subscriber_of tn cid st = Some r\<close> Return False Some show ?thesis by simp
        qed
      qed
    qed
  qed
qed

lemma wf_World_publishToTopic:
  assumes wf: "wf_World st"
  shows "wf_World (final_state (publishToTopic tn m order st))"
proof (cases "w_topics st tn")
  case None
  with wf show ?thesis by (simp add: publishToTopic_def)
next
  case (Some t)
  show ?thesis
  proof (cases "Add (t_history t) m")
    case (Inl p)
    with Some wf show ?thesis by (simp add: publishToTopic_def)
  next
    case (Inr h)
    let ?st0 = "upd_topic tn (\<lambda>t. t\<lparr>t_history := h\<rparr>) st"
    have fo: "wf_World (final_state (fanout tn m order ?st0))"
      by (rule wf_World_fanout [OF wf_World_upd_history [OF wf]])
    have "wf_World (final_state (case fanout tn m order ?st0 of
              Return u st1 \<Rightarrow> Return None
                    (upd_topic tn (\<lambda>t. t\<lparr>t_msgCount := incr_int64 (t_msgCount t)\<rparr>) st1)
            | Panic p st1 \<Rightarrow> Panic p st1))"
      using fo by (cases "fanout tn m order ?st0") (simp_all add: wf_World_upd_msgCount)
    then show ?thesis
      using Some Inr by (simp add: publishToTopic_def and_then_def)
  qed
qed

lemma wf_World_handle_publish:
  assumes wf: "wf_World st"
  shows "wf_World (final_state (handle_publish c order i st))"
proof (cases "in_Message i")
  case None
  with wf show ?thesis by (simp add: handle_publish_def)
next
  case (Some m)
  show ?thesis
  proof (cases "in_Topic i = []")
    case True
    with Some wf show ?thesis by (simp add: handle_publish_def)
  next
    case False
    note p = wf_World_publishToTopic [OF wf, of "in_Topic i" m order]
    show ?thesis
    proof (cases "publishToTopic (in_Topic i) m order st")
      case (Panic q st1)
      with Some False p show ?thesis by (simp add: handle_publish_def)
    next
      case (Return e st1)
      with Some False p show ?thesis by (cases e) (simp_all add: handle_publish_def)
    qed
  qed
qed

lemma wf_World_handle:
  assumes "wf_World st"
  shows "wf_World (final_state (handle c order i st))"
  using assms
  by (simp add: handle_def wf_World_handle_subscribe wf_World_handle_unsubscribe
        wf_World_handle_publish)

lemma wf_World_read_loop:
  assumes "wf_World st"
  shows "wf_World (final_state (read_loop c frames st))"
  using assms
proof (induction frames arbitrary: st)
  case Nil
  then show ?case by simp
next
  case (Cons f frames)
  obtain i order where f: "f = (i, order)" by (cases f)
  have "wf_World (final_state (and_then (handle c order i st) (read_loop c frames)))"
  proof (rule wf_World_and_then [OF wf_World_handle [OF Cons.prems]])
    fix st1 assume "handle c order i st = Return () st1"
    then have "wf_World st1" using wf_World_handle [OF Cons.prems, of c order i] by simp
    then show "wf_World (final_state (read_loop c frames st1))" by (rule Cons.IH)
  qed
  then show ?case by (simp add: f)
qed

lemma wf_World_wsHandler:
  assumes "wf_World st"
  shows "wf_World (final_state (wsHandler c frames ks st))"
  unfolding wsHandler_closes_no_subscriber
proof (rule wf_World_and_then [OF wf_World_read_loop [OF assms]])
  fix st1 assume "read_loop c frames st = Return () st1"
  then have "wf_World st1" using wf_World_read_loop [OF assms, of c frames] by simp
  then show "wf_World (final_state (Return () (conn_Close c StatusNormalClosure ''bye'' st1)))"
    by simp
qed

lemma wf_World_post:
  assumes "wf_World st"
  shows "wf_World (final_state (topicsCollectionHandler_post req st))"
proof (cases req)
  case None
  with assms show ?thesis by (simp add: topicsCollectionHandler_post_def)
next
  case (Some name)
  note c = wf_World_CreateTopic [OF assms, of name]
  show ?thesis
  proof (cases "CreateTopic name st")
    case (Panic p st1)
    with Some assms c show ?thesis by (simp add: topicsCollectionHandler_post_def)
  next
    case (Return e st1)
    with Some assms c show ?thesis
      by (cases e) (simp_all add: topicsCollectionHandler_post_def)
  qed
qed

lemma drain_keeps: "ch_closed (drain b ch) = ch_closed ch" "ch_cap (drain b ch) = ch_cap ch"
  by (induction b arbitrary: ch) simp_all

lemma wf_World_CloseGracefully:
  assumes "wf_World st"
  shows "wf_World (final_state (CloseGracefully b r st))"
  using assms unfolding wf_World_def CloseGracefully_def
  by (auto simp: drain_keeps split: option.splits if_splits)

lemma wf_World_close_subs_gracefully:
  assumes "wf_World st"
  shows "wf_World (final_state (close_subs_gracefully b tn cids st))"
  using assms
proof (induction cids arbitrary: st)
  case Nil
  then show ?case by simp
next
  case (Cons cid cids)
  show ?case
  proof (cases "subscriber_of tn cid st")
    case None
    with Cons show ?thesis by simp
  next
    case (Some r)
    have "wf_World (final_state (and_then (CloseGracefully b r st) (close_subs_gracefully b tn cids)))"
    proof (rule wf_World_and_then [OF wf_World_CloseGracefully [OF Cons.prems]])
      fix st1 assume "CloseGracefully b r st = Return () st1"
      then have "wf_World st1" using wf_World_CloseGracefully [OF Cons.prems, of b r] by simp
      then show "wf_World (final_state (close_subs_gracefully b tn cids st1))" by (rule Cons.IH)
    qed
    with Some show ?thesis by simp
  qed
qed

lemma wf_World_CloseAllGracefully:
  assumes "wf_World st"
  shows "wf_World (final_state (CloseAllGracefully b sorder tns st))"
  using assms
proof (induction tns arbitrary: st)
  case Nil
  then show ?case by simp
next
  case (Cons tn tns)
  have "wf_World (final_state (and_then (close_subs_gracefully b tn (sorder tn) st)
          (CloseAllGracefully b sorder tns)))"
  proof (rule wf_World_and_then [OF wf_World_close_subs_gracefully [OF Cons.prems]])
    fix st1 assume "close_subs_gracefully b tn (sorder tn) st = Return () st1"
    then have "wf_World st1"
      using wf_World_close_subs_gracefully [OF Cons.prems, of b tn "sorder tn"] by simp
    then show "wf_World (final_state (CloseAllGracefully b sorder tns st1))" by (rule Cons.IH)
  qed
  then show ?case by simp
qed

section \<open>A closed subscriber has its channel and connection closed\<close>

text \<open>
  The steps of the handlers, when they return, keep a subscriber object tidy: whenever its
  closed-signal has fired, its send channel and its connection are closed too.
\<close>

lemma and_then_assoc:
  "and_then (and_then x f) g = and_then x (\<lambda>st. and_then (f st) g)"
  by (cases x) simp_all

lemma tidy_conn_Write [simp]: "tidy r (conn_Write c f st) = tidy r st"
  by (simp add: tidy_def conn_Write_def split: option.splits)

lemma tidy_upd_topic [simp]: "tidy r (upd_topic tn g st) = tidy r st"
  by (simp add: tidy_def upd_topic_def split: option.splits)

lemma tidy_bind_subscriber [simp]: "tidy r (bind_subscriber tn cid r' st) = tidy r st"
  by (simp add: bind_subscriber_def)

lemma tidy_new_Subscriber:
  "tidy (w_next st) (snd (new_Subscriber cid c st))"
  "r \<noteq> w_next st \<Longrightarrow> tidy r (snd (new_Subscriber cid c st)) = tidy r st"
  by (simp_all add: tidy_def new_Subscriber_def split: option.splits)

lemma tidy_Close:
  assumes "Close r' st = Return () st1" "tidy r st"
  shows "tidy r st1"
  using assms
  by (auto simp: Close_def tidy_def conn_Close_def Let_def split: option.splits if_splits)

lemma tidy_CloseWithError:
  assumes "CloseWithError r' code reason st = Return () st1" "tidy r st"
  shows "tidy r st1"
proof (cases "w_subs st r'")
  case None
  with assms show ?thesis by (simp add: CloseWithError_def)
next
  case (Some s)
  with assms(1) have "Close r' (conn_Write (s_conn s) (error_frame [] code reason) st) = Return () st1"
    by (simp add: CloseWithError_def)
  then show ?thesis by (rule tidy_Close) (simp add: assms(2))
qed

lemma tidy_try_send:
  assumes "try_send r' m st = Return b st1" "tidy r st"
  shows "tidy r st1"
  using assms
  by (auto simp: try_send_def tidy_def split: option.splits if_splits)

lemma tidy_replay:
  assumes "replay r' ms st = Return () st1" "tidy r st"
  shows "tidy r st1"
  using assms
proof (induction ms arbitrary: st)
  case Nil
  then show ?case by simp
next
  case (Cons m ms)
  show ?case
  proof (cases "try_send r' m st")
    case (Panic p stp)
    with Cons.prems(1) show ?thesis by simp
  next
    case (Return b sta)
    note t1 = tidy_try_send [OF Return Cons.prems(2)]
    show ?thesis
    proof (cases b)
      case True
      with Return Cons.prems(1) have "replay r' ms sta = Return () st1" by simp
      then show ?thesis using t1 by (rule Cons.IH)
    next
      case False
      with Return Cons.prems(1) obtain stb where
        c: "CloseWithError r' ''SLOW_CONSUMER'' ''replay overflow'' sta = Return () stb" and
        r: "replay r' ms stb = Return () st1"
        by (auto simp: and_then_eq_Return)
      from r tidy_CloseWithError [OF c t1] show ?thesis by (rule Cons.IH)
    qed
  qed
qed

lemma tidy_replay_and_ack:
  assumes "replay_and_ack c i topic r' st = Return () st1" "tidy r st"
  shows "tidy r st1"
proof -
  from assms(1) obtain st3 where
    rp: "(if in_LastN i > 0
          then (case LastN (t_history topic) (in_LastN i) of
                  Inl p \<Rightarrow> Panic p st
                | Inr ms \<Rightarrow> replay r' ms st)
          else Return () st) = Return () st3" and
    fin: "st1 = conn_Write c (ack_frame (in_RequestID i) (t_name topic)) st3"
    by (auto simp: replay_and_ack_def and_then_eq_Return)
  have "tidy r st3"
  proof (cases "in_LastN i > 0")
    case False
    with rp assms(2) show ?thesis by simp
  next
    case True
    with rp obtain ms where "replay r' ms st = Return () st3"
      by (auto split: sum.splits)
    then show ?thesis using assms(2) by (rule tidy_replay)
  qed
  then show ?thesis by (simp add: fin)
qed

lemma tidy_close_existing:
  assumes "close_existing tn cid st = Return () st1" "tidy r st"
  shows "tidy r st1"
proof (cases "subscriber_of tn cid st")
  case None
  with assms show ?thesis by (simp add: close_existing_def)
next
  case (Some old)
  with assms(1) have "Close old st = Return () st1" by (simp add: close_existing_def)
  then show ?thesis using assms(2) by (rule tidy_Close)
qed

subsection \<open>The order of the steps of a registration\<close>

text \<open>
  The \<open>subscribe\<close> case for a valid request on an existing topic, as a sequence: create
  the subscriber, close the one registered under the client id, if any, then bind the new
  one and go on with the replay and the ack.
\<close>

lemma subscribe_as_steps:
  assumes "in_Type i = ''subscribe''" "in_Topic i \<noteq> []" "in_ClientID i \<noteq> []"
    and "w_topics st (in_Topic i) = Some topic"
  shows "handle c order i st =
           and_then (close_existing (in_Topic i) (in_ClientID i) (snd (new_Subscriber (in_ClientID i) c st)))
             (\<lambda>mid. replay_and_ack c i topic (w_next st)
                       (bind_subscriber (in_Topic i) (in_ClientID i) (w_next st) mid))"
  using assms
  by (simp add: handle_def handle_subscribe_def new_Subscriber_def register_def replay_and_ack_def
        and_then_assoc)

lemma Close_Panic_topics:
  assumes "Close r st = Panic p stp"
  shows "w_topics stp = w_topics st"
  using assms by (auto simp: Close_def Let_def split: option.splits if_splits)

lemma subscribe_closes_old_first:
  assumes "in_Type i = ''subscribe''" "in_Topic i \<noteq> []" "in_ClientID i \<noteq> []"
    and "w_topics st (in_Topic i) = Some topic"
    and "t_subscribers topic (in_ClientID i) = Some old"
  shows "handle c order i st =
           and_then (Close old (snd (new_Subscriber (in_ClientID i) c st)))
             (\<lambda>mid. replay_and_ack c i topic (w_next st)
                       (bind_subscriber (in_Topic i) (in_ClientID i) (w_next st) mid))"
    and "Close old (snd (new_Subscriber (in_ClientID i) c st)) = Panic p stp \<Longrightarrow>
           handle c order i st = Panic p stp \<and>
           subscriber_of (in_Topic i) (in_ClientID i) stp = Some old"
proof -
  let ?stn = "snd (new_Subscriber (in_ClientID i) c st)"
  have "subscriber_of (in_Topic i) (in_ClientID i) ?stn = Some old"
    using assms(4,5) by (simp add: subscriber_of_def new_Subscriber_def)
  then have ce: "close_existing (in_Topic i) (in_ClientID i) ?stn = Close old ?stn"
    by (simp add: close_existing_def)
  show eq: "handle c order i st =
           and_then (Close old ?stn)
             (\<lambda>mid. replay_and_ack c i topic (w_next st)
                       (bind_subscriber (in_Topic i) (in_ClientID i) (w_next st) mid))"
    using subscribe_as_steps [OF assms(1-4), of c order] by (simp add: ce)
  assume p: "Close old ?stn = Panic p stp"
  have "w_topics stp = w_topics st"
    using Close_Panic_topics [OF p] by (simp add: new_Subscriber_def)
  then have "subscriber_of (in_Topic i) (in_ClientID i) stp = Some old"
    using assms(4,5) by (simp add: subscriber_of_def)
  then show "handle c order i st = Panic p stp \<and>
           subscriber_of (in_Topic i) (in_ClientID i) stp = Some old"
    by (simp add: eq p)
qed

section \<open>Ring buffer: the replay suffix\<close>

lemma smod_nonneg_eq_mod: "0 \<le> (a::int) \<Longrightarrow> 0 \<le> b \<Longrightarrow> a smod b = a mod b"
  by (cases "a = 0") (simp_all add: signed_modulo_int_def)

lemma read_all_in_range:
  "\<forall>i \<in> set js. 0 \<le> i \<and> i < int (length xs) \<Longrightarrow> read_all xs js = Inr (map (\<lambda>i. xs ! nat i) js)"
  by (induction js) (simp_all add: index_def)

lemma rb_inv_New:
  assumes "0 < N"
  shows "\<exists>r0. NewRingBuffer (int N) = Inr r0 \<and> rb_inv N [] r0"
  using assms by (simp add: NewRingBuffer_def rb_inv_def)

lemma mod_neq_in_window:
  fixes j k N :: nat
  assumes "j < k" "k < j + N"
  shows "j mod N \<noteq> k mod N"
proof
  assume eq: "j mod N = k mod N"
  have "(k - j) mod N = 0"
    using assms eq by (metis mod_eq_dvd_iff_nat dvd_eq_mod_eq_0 less_imp_le_nat)
  then have "N dvd (k - j)" by auto
  moreover have "0 < k - j" using assms by simp
  ultimately have "N \<le> k - j" by (simp add: dvd_imp_le)
  then show False using assms by simp
qed

lemma rb_inv_Add:
  assumes N: "0 < N" and inv: "rb_inv N ms r"
  shows "\<exists>r1. Add r m = Inr r1 \<and> rb_inv N (ms @ [m]) r1"
proof -
  let ?k = "length ms"
  have sz: "rb_size r = int N" and len: "length (rb_data r) = N"
    and nx: "rb_next r = int (?k mod N)" and fl: "rb_full r = (N \<le> ?k)"
    and dat: "\<And>j. j < ?k \<Longrightarrow> ?k \<le> j + N \<Longrightarrow> rb_data r ! (j mod N) = ms ! j"
    using inv by (simp_all add: rb_inv_def)
  have lt: "?k mod N < N" using N by simp
  define nxt where "nxt = (rb_next r + 1) smod rb_size r"
  have nxt: "nxt = int (Suc ?k mod N)"
    unfolding nxt_def sz nx using N
    by (simp add: smod_nonneg_eq_mod zmod_int add.commute mod_add_right_eq)
  define r1 where "r1 = r\<lparr>rb_data := (rb_data r)[nat (rb_next r) := m], rb_next := nxt,
                   rb_full := (if nxt = 0 then True else rb_full r)\<rparr>"
  have add: "Add r m = Inr r1"
    using N lt by (simp add: Add_def sz len nx r1_def nxt_def Let_def)
  have full: "(if nxt = 0 then True else rb_full r) = (N \<le> Suc ?k)"
  proof (cases "nxt = 0")
    case True
    then have "Suc ?k mod N = 0" using nxt by simp
    then have "N dvd Suc ?k" by auto
    then have "N \<le> Suc ?k" by (simp add: dvd_imp_le)
    with True show ?thesis by simp
  next
    case False
    then have ne: "Suc ?k mod N \<noteq> 0" using nxt by simp
    then have "N \<noteq> Suc ?k" by auto
    with False fl show ?thesis by auto
  qed
  have cells: "rb_data r1 ! (j mod N) = (ms @ [m]) ! j"
    if j: "j < Suc ?k" "Suc ?k \<le> j + N" for j
  proof (cases "j = ?k")
    case True
    then show ?thesis using lt by (simp add: r1_def nx len)
  next
    case False
    then have jk: "j < ?k" using j by simp
    then have "j mod N \<noteq> ?k mod N" using j by (intro mod_neq_in_window) simp_all
    then have "rb_data r1 ! (j mod N) = rb_data r ! (j mod N)"
      by (simp add: r1_def nx)
    also have "\<dots> = ms ! j" using jk j by (intro dat) simp_all
    finally show ?thesis using jk by (simp add: nth_append)
  qed
  have "rb_inv N (ms @ [m]) r1"
    unfolding rb_inv_def using cells full
    by (simp add: r1_def sz len nxt)
  with add show ?thesis by blast
qed

lemma rb_inv_AddAll:
  assumes "0 < N" "rb_inv N pre r"
  shows "\<exists>r1. AddAll r ms = Inr r1 \<and> rb_inv N (pre @ ms) r1"
  using assms(2)
proof (induction ms arbitrary: r pre)
  case Nil
  then show ?case by simp
next
  case (Cons m ms)
  from rb_inv_Add [OF assms(1) Cons.prems, of m]
  obtain r1 where r1: "Add r m = Inr r1" "rb_inv N (pre @ [m]) r1" by blast
  from Cons.IH [OF r1(2)] r1(1) show ?case by simp
qed

lemma rb_inv_LastN:
  assumes N: "0 < N" and inv: "rb_inv N ms r"
  shows "LastN r n = Inr (drop (length ms - nat (min n (min (int (length ms)) (int N)))) ms)"
proof (cases "n \<le> 0")
  case True
  then show ?thesis by (simp add: LastN_def)
next
  case npos: False
  let ?k = "length ms"
  have sz: "rb_size r = int N" and len: "length (rb_data r) = N"
    and nx: "rb_next r = int (?k mod N)" and fl: "rb_full r = (N \<le> ?k)"
    and dat: "\<And>j. j < ?k \<Longrightarrow> ?k \<le> j + N \<Longrightarrow> rb_data r ! (j mod N) = ms ! j"
    using inv by (simp_all add: rb_inv_def)
  define c where "c = nat (min n (min (int ?k) (int N)))"
  have c_le: "c \<le> ?k" "c \<le> N" by (simp_all add: c_def)
  show ?thesis
  proof (cases "N \<le> ?k")
    case False
    then have kN: "?k < N" by simp
    then have nxk: "rb_next r = int ?k" using nx by simp
    have c_eq: "int c = (if n > int ?k then int ?k else n)"
      using npos kN by (simp add: c_def min_def)
    have rng: "\<forall>i \<in> set [int ?k - int c .. int ?k - 1]. 0 \<le> i \<and> i < int (length (rb_data r))"
      using c_le kN by (auto simp: len)
    have "LastN r n = read_all (rb_data r) [int ?k - int c .. int ?k - 1]"
      using npos N False c_eq by (simp add: LastN_def sz fl nxk Let_def)
    also have "\<dots> = Inr (map (\<lambda>i. rb_data r ! nat i) [int ?k - int c .. int ?k - 1])"
      by (rule read_all_in_range [OF rng])
    also have "map (\<lambda>i. rb_data r ! nat i) [int ?k - int c .. int ?k - 1] = drop (?k - c) ms"
    proof (rule nth_equalityI)
      show "length (map (\<lambda>i. rb_data r ! nat i) [int ?k - int c .. int ?k - 1]) = length (drop (?k - c) ms)"
        using c_le by simp
    next
      fix i assume "i < length (map (\<lambda>i. rb_data r ! nat i) [int ?k - int c .. int ?k - 1])"
      then have i: "i < c" using c_le by simp
      have "[int ?k - int c .. int ?k - 1] ! i = int ?k - int c + int i"
        using i by simp
      moreover have "nat (int ?k - int c + int i) = ?k - c + i" using c_le by simp
      moreover have "rb_data r ! ((?k - c + i) mod N) = ms ! (?k - c + i)"
        using i c_le by (intro dat) simp_all
      moreover have "(?k - c + i) mod N = ?k - c + i" using i c_le kN by simp
      ultimately show "map (\<lambda>i. rb_data r ! nat i) [int ?k - int c .. int ?k - 1] ! i = drop (?k - c) ms ! i"
        using i c_le by simp
    qed
    finally show ?thesis by (simp add: c_def)
  next
    case True
    have c_eq: "int c = (if n > int N then int N else n)"
      using npos True by (simp add: c_def min_def)
    define start where "start = (rb_next r - int c + rb_size r) smod rb_size r"
    have start: "start = (int ?k - int c) mod int N"
    proof -
      have "0 \<le> int (?k mod N) - int c + int N" using c_le by simp
      then have "start = (int (?k mod N) - int c + int N) mod int N"
        unfolding start_def sz nx by (simp add: smod_nonneg_eq_mod)
      also have "\<dots> = (int ?k - int c) mod int N"
        by (simp add: zmod_int mod_simps)
      finally show ?thesis .
    qed
    have idx: "(start + int i) smod rb_size r = int ((?k - c + i) mod N)" for i
    proof -
      have "0 \<le> start" using N by (simp add: start)
      then have "(start + int i) smod rb_size r = (start + int i) mod int N"
        unfolding sz by (simp add: smod_nonneg_eq_mod)
      also have "\<dots> = (int ?k - int c + int i) mod int N"
        by (simp add: start mod_simps)
      also have "int ?k - int c + int i = int (?k - c + i)" using c_le by simp
      finally show ?thesis by (simp add: zmod_int)
    qed
    let ?js = "map (\<lambda>i. (start + i) smod rb_size r) [0 .. int c - 1]"
    have js: "?js = map (\<lambda>i. int ((?k - c + i) mod N)) [0 ..< c]"
    proof (rule nth_equalityI)
      show "length ?js = length (map (\<lambda>i. int ((?k - c + i) mod N)) [0 ..< c])" by simp
    next
      fix i assume "i < length ?js"
      then have i: "i < c" by simp
      then have "[0 .. int c - 1] ! i = int i" by simp
      then show "?js ! i = map (\<lambda>i. int ((?k - c + i) mod N)) [0 ..< c] ! i"
        using i idx [of i] by simp
    qed
    have rng: "\<forall>i \<in> set ?js. 0 \<le> i \<and> i < int (length (rb_data r))"
      unfolding js using N by (auto simp: len)
    have "LastN r n = read_all (rb_data r) ?js"
      using npos N True c_eq by (simp add: LastN_def sz fl Let_def start_def)
    also have "\<dots> = Inr (map (\<lambda>i. rb_data r ! nat i) ?js)"
      by (rule read_all_in_range [OF rng])
    also have "map (\<lambda>i. rb_data r ! nat i) ?js = map (\<lambda>i. rb_data r ! ((?k - c + i) mod N)) [0 ..< c]"
      unfolding js by (simp add: comp_def)
    also have "\<dots> = drop (?k - c) ms"
    proof (rule nth_equalityI)
      show "length (map (\<lambda>i. rb_data r ! ((?k - c + i) mod N)) [0 ..< c]) = length (drop (?k - c) ms)"
        using c_le by simp
    next
      fix i assume "i < length (map (\<lambda>i. rb_data r ! ((?k - c + i) mod N)) [0 ..< c])"
      then have i: "i < c" by simp
      have "rb_data r ! ((?k - c + i) mod N) = ms ! (?k - c + i)"
        using i c_le by (intro dat) simp_all
      then show "map (\<lambda>i. rb_data r ! ((?k - c + i) mod N)) [0 ..< c] ! i = drop (?k - c) ms ! i"
        using i c_le by simp
    qed
    finally show ?thesis by (simp add: c_def)
  qed
qed

text \<open>
  A buffer of capacity 0 can be built, but its first \<open>Add\<close> faults on the index; the
  program builds buffers of capacity 100 only.
\<close>

lemma Add_capacity_zero:
  "NewRingBuffer 0 = Inr \<lparr>rb_data = [], rb_size = 0, rb_next = 0, rb_full = False\<rparr>"
  "Add \<lparr>rb_data = [], rb_size = 0, rb_next = 0, rb_full = False\<rparr> m = Inl IndexOutOfRange"
  by (simp_all add: NewRingBuffer_def Add_def)

text \<open>
  Claim C4.  After any sequence \<open>ms\<close> of \<open>Add\<close> calls on a fresh ring buffer of capacity
  \<open>N > 0\<close>, every \<open>Add\<close> returns and \<open>LastN n\<close> returns exactly the last
  \<open>min n (min (length ms) N)\<close> messages of \<open>ms\<close>, oldest first; that is the empty list for
  \<open>n \<le> 0\<close> and the suffix starting at \<open>m\<^bsub>max(1,k-n+1)\<^esub>\<close> for \<open>0 < n \<le> N\<close>.
\<close>

theorem LastN_returns_most_recent:
  assumes "0 < N"
  shows "\<exists>r0 r. NewRingBuffer N = Inr r0 \<and> AddAll r0 ms = Inr r \<and>
           LastN r n = Inr (drop (length ms - nat (min n (min (int (length ms)) N))) ms) \<and>
           (n \<le> 0 \<longrightarrow> LastN r n = Inr []) \<and>
           (0 < n \<and> n \<le> N \<longrightarrow> LastN r n = Inr (drop (length ms - nat n) ms))"
proof -
  have N: "0 < nat N" and NN: "int (nat N) = N" using assms by simp_all
  from rb_inv_New [OF N] obtain r0 where r0: "NewRingBuffer N = Inr r0" "rb_inv (nat N) [] r0"
    unfolding NN by blast
  from rb_inv_AddAll [OF N r0(2), of ms] obtain r where r: "AddAll r0 ms = Inr r" "rb_inv (nat N) ms r"
    by auto
  have L: "LastN r n = Inr (drop (length ms - nat (min n (min (int (length ms)) N))) ms)"
    using rb_inv_LastN [OF N r(2), of n] by (simp add: NN)
  have "n \<le> 0 \<Longrightarrow> LastN r n = Inr []" using L by simp
  moreover have "0 < n \<and> n \<le> N \<Longrightarrow> LastN r n = Inr (drop (length ms - nat n) ms)"
  proof -
    assume a: "0 < n \<and> n \<le> N"
    show ?thesis
    proof (cases "n \<le> int (length ms)")
      case True
      with a have "min n (min (int (length ms)) N) = n" by simp
      with L show ?thesis by simp
    next
      case False
      with a have "min n (min (int (length ms)) N) = int (length ms)" by simp
      with L False show ?thesis by simp
    qed
  qed
  ultimately show ?thesis using r0 r L by blast
qed

theorem LastN_returns_most_recent_witness:
  "\<exists>r0 r. NewRingBuffer 3 = Inr r0 \<and>
      AddAll r0 [\<lparr>ID = ''m1'', Payload = None\<rparr>, \<lparr>ID = ''m2'', Payload = None\<rparr>,
                 \<lparr>ID = ''m3'', Payload = None\<rparr>, \<lparr>ID = ''m4'', Payload = None\<rparr>] = Inr r \<and>
      LastN r 2 = Inr [\<lparr>ID = ''m3'', Payload = None\<rparr>, \<lparr>ID = ''m4'', Payload = None\<rparr>]"
  using LastN_returns_most_recent [of 3 "[\<lparr>ID = ''m1'', Payload = None\<rparr>, \<lparr>ID = ''m2'', Payload = None\<rparr>,
                 \<lparr>ID = ''m3'', Payload = None\<rparr>, \<lparr>ID = ''m4'', Payload = None\<rparr>]" 2]
  by simp

section \<open>Closing a subscriber twice\<close>

lemma Close_times_after:
  assumes "w_subs st1 r = Some s1" "s_closed s1"
  shows "Close_times n r st1 = Return () st1"
  by (induction n) (simp_all add: Close_closed [OF assms])

text \<open>
  Claim C8.  On a subscriber whose send channel is not closed while the closed-signal is
  still open (only \<open>Close\<close> closes the send channel, after the signal; every well-formed
  state is such), \<open>Close\<close> returns, and any number of further \<open>Close\<close> calls return at once
  and leave the state of the first call: the signal is closed once, the send channel
  once.
\<close>

theorem Close_idempotent:
  assumes "w_subs st r = Some s" and "ch_closed (s_send s) \<longrightarrow> s_closed s"
  shows "\<exists>st1 s1. Close r st = Return () st1 \<and>
           (\<forall>n. Close_times (Suc n) r st = Return () st1) \<and>
           Close r st1 = Return () st1 \<and>
           w_subs st1 r = Some s1 \<and> s_closed s1 \<and> (\<not> s_closed s \<longrightarrow> ch_closed (s_send s1))"
proof -
  have "\<exists>st1. Close r st = Return () st1"
    using assms by (cases "s_closed s") (simp_all add: Close_def Let_def)
  then obtain st1 where c1: "Close r st = Return () st1" ..
  from Close_Return_closed [OF c1] obtain s1 where s1: "w_subs st1 r = Some s1" "s_closed s1"
    by blast
  have again: "Close_times n r st1 = Return () st1" for n
    by (rule Close_times_after [OF s1])
  have send: "\<not> s_closed s \<longrightarrow> ch_closed (s_send s1)"
    using c1 s1 assms by (auto simp: Close_def conn_Close_def Let_def split: if_splits)
  show ?thesis using c1 s1 again send Close_closed [OF s1] by auto
qed

theorem Close_idempotent_witness:
  "w_subs ex_World 0 = Some ex_sub \<and> \<not> ch_closed (s_send ex_sub) \<and>
   (\<exists>st1. Close 0 ex_World = Return () st1 \<and> Close_times (Suc (Suc (Suc 0))) 0 ex_World = Return () st1 \<and>
       Close 0 st1 = Return () st1)"
  using Close_idempotent [of ex_World 0 ex_sub]
  by (auto simp: ex_World_def ex_fresh_World_def ex_sub_def)

section \<open>Graceful close\<close>

lemma CloseGracefully_closed:
  assumes "w_subs st r = Some s" "s_closed s"
  shows "CloseGracefully b r st = Panic CloseOfClosedChannel st"
  using assms by (simp add: CloseGracefully_def)

lemma CloseGracefully_Return:
  assumes "CloseGracefully b r st = Return () st1"
  shows "\<exists>s. w_subs st r = Some s \<and> \<not> s_closed s \<and>
           st1 = st\<lparr>w_subs := (w_subs st)(r \<mapsto> s\<lparr>s_closed := True, s_send := drain b (s_send s)\<rparr>)\<rparr>"
  using assms by (auto simp: CloseGracefully_def split: option.splits if_splits)

lemma close_subs_gracefully_Return:
  assumes "close_subs_gracefully b tn cids st = Return () st1"
  shows "w_topics st1 = w_topics st \<and>
         (\<forall>r s. w_subs st r = Some s \<and> s_closed s \<longrightarrow> (\<exists>s1. w_subs st1 r = Some s1 \<and> s_closed s1)) \<and>
         (\<forall>r s1. w_subs st1 r = Some s1 \<and> \<not> s_closed s1 \<longrightarrow> w_subs st r = Some s1) \<and>
         (\<forall>cid \<in> set cids. \<forall>r. subscriber_of tn cid st = Some r \<longrightarrow>
            (\<exists>s. w_subs st r = Some s \<and> \<not> s_closed s))"
  using assms
proof (induction cids arbitrary: st)
  case Nil
  then show ?case by simp
next
  case (Cons cid cids)
  show ?case
  proof (cases "subscriber_of tn cid st")
    case None
    with Cons.prems have "close_subs_gracefully b tn cids st = Return () st1" by simp
    from Cons.IH [OF this] None show ?thesis by simp
  next
    case (Some r)
    with Cons.prems obtain st0 where
      g: "CloseGracefully b r st = Return () st0" and
      rest: "close_subs_gracefully b tn cids st0 = Return () st1"
      by (auto simp: and_then_eq_Return)
    from CloseGracefully_Return [OF g] obtain s where
      s: "w_subs st r = Some s" "\<not> s_closed s"
         "st0 = st\<lparr>w_subs := (w_subs st)(r \<mapsto> s\<lparr>s_closed := True, s_send := drain b (s_send s)\<rparr>)\<rparr>"
      by blast
    have ih1: "w_topics st1 = w_topics st0"
      and ih2: "\<And>r s. w_subs st0 r = Some s \<Longrightarrow> s_closed s \<Longrightarrow> \<exists>s1. w_subs st1 r = Some s1 \<and> s_closed s1"
      and ih3: "\<And>r s1. w_subs st1 r = Some s1 \<Longrightarrow> \<not> s_closed s1 \<Longrightarrow> w_subs st0 r = Some s1"
      and ih4: "\<And>cid r. cid \<in> set cids \<Longrightarrow> subscriber_of tn cid st0 = Some r \<Longrightarrow>
                  \<exists>s. w_subs st0 r = Some s \<and> \<not> s_closed s"
      using Cons.IH [OF rest] by blast+
    have topics: "w_topics st1 = w_topics st" using ih1 s(3) by simp
    have keep: "\<exists>s1. w_subs st1 r' = Some s1 \<and> s_closed s1"
      if "w_subs st r' = Some s'" "s_closed s'" for r' s'
    proof -
      have "\<exists>s0. w_subs st0 r' = Some s0 \<and> s_closed s0"
        using that s by (cases "r' = r") simp_all
      then show ?thesis using ih2 by blast
    qed
    have still: "w_subs st r' = Some s1" if "w_subs st1 r' = Some s1" "\<not> s_closed s1" for r' s1
    proof -
      have a: "w_subs st0 r' = Some s1" using that by (rule ih3)
      then have "r' \<noteq> r" using that(2) s(3) by auto
      with a s(3) show ?thesis by simp
    qed
    have visited: "\<exists>s. w_subs st r' = Some s \<and> \<not> s_closed s"
      if "cid' \<in> set (cid # cids)" "subscriber_of tn cid' st = Some r'" for cid' r'
    proof (cases "r' = r")
      case True
      with s show ?thesis by simp
    next
      case False
      with that Some have "cid' \<in> set cids" by auto
      moreover have "subscriber_of tn cid' st0 = Some r'" using that s(3) by simp
      ultimately obtain s0 where "w_subs st0 r' = Some s0" "\<not> s_closed s0"
        using ih4 by blast
      with False s(3) show ?thesis by simp
    qed
    show ?thesis
      apply (intro conjI allI ballI impI)
      subgoal by (rule topics)
      subgoal using keep by blast
      subgoal using still by blast
      subgoal using visited by blast
      done
  qed
qed

lemma subscriber_of_cong_topics:
  "w_topics st1 = w_topics st \<Longrightarrow> subscriber_of tn cid st1 = subscriber_of tn cid st"
  by (simp add: subscriber_of_def)

lemma CloseAllGracefully_Return:
  assumes "CloseAllGracefully b sorder tns st = Return () st1"
  shows "w_topics st1 = w_topics st \<and>
         (\<forall>r s. w_subs st r = Some s \<and> s_closed s \<longrightarrow> (\<exists>s1. w_subs st1 r = Some s1 \<and> s_closed s1)) \<and>
         (\<forall>r s1. w_subs st1 r = Some s1 \<and> \<not> s_closed s1 \<longrightarrow> w_subs st r = Some s1) \<and>
         (\<forall>tn \<in> set tns. \<forall>cid \<in> set (sorder tn). \<forall>r. subscriber_of tn cid st = Some r \<longrightarrow>
            (\<exists>s. w_subs st r = Some s \<and> \<not> s_closed s))"
  using assms
proof (induction tns arbitrary: st)
  case Nil
  then show ?case by simp
next
  case (Cons tn tns)
  from Cons.prems obtain st0 where
    first: "close_subs_gracefully b tn (sorder tn) st = Return () st0" and
    rest: "CloseAllGracefully b sorder tns st0 = Return () st1"
    by (auto simp: and_then_eq_Return)
  note A = close_subs_gracefully_Return [OF first]
  note B = Cons.IH [OF rest]
  have a1: "w_topics st0 = w_topics st" using A by (rule conjunct1)
  have a2: "\<exists>s1. w_subs st0 r = Some s1 \<and> s_closed s1" if "w_subs st r = Some s" "s_closed s" for r s
    using A [THEN conjunct2, THEN conjunct1, rule_format, of r s] that by simp
  have a3: "w_subs st r = Some s1" if "w_subs st0 r = Some s1" "\<not> s_closed s1" for r s1
    using A [THEN conjunct2, THEN conjunct2, THEN conjunct1, rule_format, of r s1] that by simp
  have a4: "\<exists>s. w_subs st r = Some s \<and> \<not> s_closed s"
    if "cid \<in> set (sorder tn)" "subscriber_of tn cid st = Some r" for cid r
    using A [THEN conjunct2, THEN conjunct2, THEN conjunct2, rule_format, of cid r] that by simp
  have ih1: "w_topics st1 = w_topics st0" using B by (rule conjunct1)
  have ih2: "\<exists>s1. w_subs st1 r = Some s1 \<and> s_closed s1" if "w_subs st0 r = Some s" "s_closed s" for r s
    using B [THEN conjunct2, THEN conjunct1, rule_format, of r s] that by simp
  have ih3: "w_subs st0 r = Some s1" if "w_subs st1 r = Some s1" "\<not> s_closed s1" for r s1
    using B [THEN conjunct2, THEN conjunct2, THEN conjunct1, rule_format, of r s1] that by simp
  have ih4: "\<exists>s. w_subs st0 r = Some s \<and> \<not> s_closed s"
    if "tn' \<in> set tns" "cid \<in> set (sorder tn')" "subscriber_of tn' cid st0 = Some r" for tn' cid r
    using B [THEN conjunct2, THEN conjunct2, THEN conjunct2, rule_format, of tn' cid r] that by simp
  have topics: "w_topics st1 = w_topics st" using a1 ih1 by simp
  have keep: "\<exists>s1. w_subs st1 r = Some s1 \<and> s_closed s1"
    if "w_subs st r = Some s" "s_closed s" for r s
  proof -
    from a2 [OF that] obtain s0 where "w_subs st0 r = Some s0" "s_closed s0" by blast
    then show ?thesis by (rule ih2)
  qed
  have still: "w_subs st r = Some s1" if "w_subs st1 r = Some s1" "\<not> s_closed s1" for r s1
    by (rule a3 [OF ih3 [OF that] that(2)])
  have visited: "\<exists>s. w_subs st r = Some s \<and> \<not> s_closed s"
    if "tn' \<in> set (tn # tns)" "cid \<in> set (sorder tn')" "subscriber_of tn' cid st = Some r"
    for tn' cid r
  proof (cases "tn' = tn")
    case True
    show ?thesis
      using that(2,3) unfolding True by (rule a4)
  next
    case False
    with that have in_rest: "tn' \<in> set tns" by simp
    have "subscriber_of tn' cid st0 = Some r"
      using that a1 by (simp add: subscriber_of_def)
    from ih4 [OF in_rest that(2) this] obtain s0 where s0: "w_subs st0 r = Some s0" "\<not> s_closed s0"
      by blast
    then have "w_subs st r = Some s0" by (rule a3)
    with s0 show ?thesis by simp
  qed
  show ?case
  proof (intro conjI allI ballI impI)
    show "w_topics st1 = w_topics st" by (rule topics)
  next
    fix r s assume "w_subs st r = Some s \<and> s_closed s"
    then show "\<exists>s1. w_subs st1 r = Some s1 \<and> s_closed s1" using keep by blast
  next
    fix r s1 assume "w_subs st1 r = Some s1 \<and> \<not> s_closed s1"
    then show "w_subs st r = Some s1" using still by blast
  next
    fix tn' cid r
    assume "tn' \<in> set (tn # tns)" "cid \<in> set (sorder tn')" "subscriber_of tn' cid st = Some r"
    then show "\<exists>s. w_subs st r = Some s \<and> \<not> s_closed s" by (rule visited)
  qed
qed

text \<open>
  Claim C10.  \<open>CloseGracefully\<close> closes the closed-signal without looking at it: on a
  subscriber whose signal is closed it panics, so it panics after a \<open>Close\<close> and after a
  \<open>CloseGracefully\<close> that returned.  \<open>CloseAllGracefully\<close> can therefore only return when
  none of the subscribers it visits had been closed before.
\<close>

theorem CloseGracefully_faults_once_closed:
  "(w_subs st r = Some s \<and> s_closed s \<longrightarrow> CloseGracefully b r st = Panic CloseOfClosedChannel st) \<and>
   (Close r st = Return () st1 \<longrightarrow> CloseGracefully b r st1 = Panic CloseOfClosedChannel st1) \<and>
   (CloseGracefully b0 r st = Return () st2 \<longrightarrow> CloseGracefully b r st2 = Panic CloseOfClosedChannel st2) \<and>
   (CloseAllGracefully b sorder tns st = Return () st3 \<longrightarrow>
      (\<forall>tn \<in> set tns. \<forall>cid \<in> set (sorder tn). \<forall>r. subscriber_of tn cid st = Some r \<longrightarrow>
          (\<exists>s. w_subs st r = Some s \<and> \<not> s_closed s)))"
proof (intro conjI impI)
  assume "w_subs st r = Some s \<and> s_closed s"
  then show "CloseGracefully b r st = Panic CloseOfClosedChannel st"
    by (simp add: CloseGracefully_closed)
next
  assume "Close r st = Return () st1"
  from Close_Return_closed [OF this] show "CloseGracefully b r st1 = Panic CloseOfClosedChannel st1"
    by (auto simp: CloseGracefully_closed)
next
  assume "CloseGracefully b0 r st = Return () st2"
  from CloseGracefully_Return [OF this]
  show "CloseGracefully b r st2 = Panic CloseOfClosedChannel st2"
    by (auto simp: CloseGracefully_def)
next
  assume "CloseAllGracefully b sorder tns st = Return () st3"
  from CloseAllGracefully_Return [OF this]
  show "\<forall>tn \<in> set tns. \<forall>cid \<in> set (sorder tn). \<forall>r. subscriber_of tn cid st = Some r \<longrightarrow>
          (\<exists>s. w_subs st r = Some s \<and> \<not> s_closed s)"
    by blast
qed

theorem CloseGracefully_faults_once_closed_witness:
  "CloseGracefully 0 0 (final_state (Close 0 ex_World)) =
     Panic CloseOfClosedChannel (final_state (Close 0 ex_World)) \<and>
   CloseGracefully 0 0 (final_state (CloseGracefully 5 0 ex_World)) =
     Panic CloseOfClosedChannel (final_state (CloseGracefully 5 0 ex_World)) \<and>
   CloseAllGracefully 5 (\<lambda>_. [''a'']) [''t''] ex_World = Return () (final_state (CloseGracefully 5 0 ex_World)) \<and>
   subscriber_of ''t'' ''a'' ex_World = Some 0 \<and> w_subs ex_World 0 = Some ex_sub \<and> \<not> s_closed ex_sub"
  using CloseGracefully_faults_once_closed
          [where st = "final_state (Close 0 ex_World)" and r = 0
             and s = "the (w_subs (final_state (Close 0 ex_World)) 0)" and b = 0]
   CloseGracefully_faults_once_closed
          [where st = ex_World and r = 0 and b = 0 and ?b0.0 = 5
             and ?st1.0 = "final_state (Close 0 ex_World)"
             and ?st2.0 = "final_state (CloseGracefully 5 0 ex_World)"
             and sorder = "\<lambda>_. [''a'']" and tns = "[''t'']"
             and ?st3.0 = "final_state (CloseGracefully 5 0 ex_World)"]
   CloseGracefully_faults_once_closed
          [where st = ex_World and b = 5 and sorder = "\<lambda>_. [''a'']" and tns = "[''t'']"
             and ?st3.0 = "final_state (CloseGracefully 5 0 ex_World)"]
  by (simp add: ex_World_def ex_fresh_World_def ex_sub_def ex_topic_def init_World_def Close_def CloseGracefully_def
        final_state_def conn_Close_def subscriber_of_def StatusNormalClosure_def)

section \<open>Capacity of the replay buffer\<close>

lemma CreateTopic_capacity:
  assumes "w_topics st name = None"
  shows "\<exists>st1. CreateTopic name st = Return None st1 \<and> history_size name st1 = Some 100"
  using assms by (simp add: CreateTopic_def NewRingBuffer_def history_size_def)

text \<open>
  Claim C6.  \<open>CreateTopic\<close> builds the ring buffer with \<open>NewRingBuffer(100)\<close> and never
  reads the environment: in a process started with \<open>RING_BUFFER_SIZE=5\<close>, creating the
  topic \<open>t\<close> succeeds and the buffer of \<open>t\<close> has capacity 100, not 5.
\<close>

theorem CreateTopic_ignores_RING_BUFFER_SIZE:
  "w_env (init_World ex_env_ring) ''RING_BUFFER_SIZE'' = ''5'' \<and>
   result_of (CreateTopic ''t'' (init_World ex_env_ring)) = Some None \<and>
   history_size ''t'' (final_state (CreateTopic ''t'' (init_World ex_env_ring))) = Some 100"
proof -
  have env: "w_env (init_World ex_env_ring) ''RING_BUFFER_SIZE'' = ''5''"
    by (simp add: init_World_def ex_env_ring_def)
  have "w_topics (init_World ex_env_ring) ''t'' = None"
    by (simp add: init_World_def)
  from CreateTopic_capacity [OF this] env show ?thesis
    by (auto simp: result_of_def)
qed

section \<open>Topic names over HTTP\<close>

lemma TrimSpace_ex: "TrimSpace '' t '' = ''t''" "TrimSpace ''t'' = ''t''" "TrimSpace ''  '' = []"
  by (simp_all add: TrimSpace_def space_seqs_def)

text \<open>
  Claim C7, as stated, fails: the handler trims the name only to test it for emptiness
  and registers it as given.  On a fresh process, creating \<open>" t "\<close> answers 201 with the
  untrimmed name; creating \<open>"t"\<close> afterwards answers 201 as well, not 409, and both topics
  are registered.
\<close>

theorem post_topic_not_trimmed_counterexample:
  "result_of (topicsCollectionHandler_post (Some '' t '') ex_fresh_World) =
     Some \<lparr>resp_status = 201, resp_code = ''created'', resp_text = '' t ''\<rparr> \<and>
   result_of ex_two_posts = Some \<lparr>resp_status = 201, resp_code = ''created'', resp_text = ''t''\<rparr> \<and>
   w_topics (final_state ex_two_posts) '' t '' \<noteq> None \<and>
   w_topics (final_state ex_two_posts) ''t'' \<noteq> None"
  by (simp add: ex_two_posts_def ex_fresh_World_def topicsCollectionHandler_post_def TrimSpace_ex
        CreateTopic_def NewRingBuffer_def init_World_def result_of_def final_state_def)

text \<open>
  Claim C7, amended.  A request whose body does not decode or whose name is empty after
  trimming gets 400 \<open>BAD_REQUEST\<close> and leaves the state as it was; any other name is
  registered exactly as given with 201, unless that exact name is registered already, which
  gets 409 \<open>CONFLICT\<close> and leaves the state as it was.
\<close>

theorem post_topic_registers_name_as_given:
  "((req = None \<or> (\<exists>name. req = Some name \<and> TrimSpace name = [])) \<longrightarrow>
      topicsCollectionHandler_post req st =
        Return \<lparr>resp_status = 400, resp_code = ''BAD_REQUEST'', resp_text = ''name is required''\<rparr> st) \<and>
   (req = Some name \<and> TrimSpace name \<noteq> [] \<and> w_topics st name = None \<longrightarrow>
      topicsCollectionHandler_post req st =
        Return \<lparr>resp_status = 201, resp_code = ''created'', resp_text = name\<rparr>
          (st\<lparr>w_topics := (w_topics st)(name \<mapsto> new_topic name)\<rparr>)) \<and>
   (req = Some name \<and> TrimSpace name \<noteq> [] \<and> w_topics st name \<noteq> None \<longrightarrow>
      topicsCollectionHandler_post req st =
        Return \<lparr>resp_status = 409, resp_code = ''CONFLICT'', resp_text = ''topic already exists''\<rparr> st)"
proof (intro conjI impI)
  assume "req = None \<or> (\<exists>name. req = Some name \<and> TrimSpace name = [])"
  then show "topicsCollectionHandler_post req st =
        Return \<lparr>resp_status = 400, resp_code = ''BAD_REQUEST'', resp_text = ''name is required''\<rparr> st"
    by (auto simp: topicsCollectionHandler_post_def)
next
  assume a: "req = Some name \<and> TrimSpace name \<noteq> [] \<and> w_topics st name = None"
  then have "CreateTopic name st =
      Return None (st\<lparr>w_topics := (w_topics st)(name \<mapsto> new_topic name)\<rparr>)"
    by (simp add: CreateTopic_def NewRingBuffer_def new_topic_def)
  with a show "topicsCollectionHandler_post req st =
        Return \<lparr>resp_status = 201, resp_code = ''created'', resp_text = name\<rparr>
          (st\<lparr>w_topics := (w_topics st)(name \<mapsto> new_topic name)\<rparr>)"
    by (simp add: topicsCollectionHandler_post_def)
next
  assume a: "req = Some name \<and> TrimSpace name \<noteq> [] \<and> w_topics st name \<noteq> None"
  then have "CreateTopic name st = Return (Some ErrTopicExists) st"
    by (auto simp: CreateTopic_def)
  with a show "topicsCollectionHandler_post req st =
        Return \<lparr>resp_status = 409, resp_code = ''CONFLICT'', resp_text = ''topic already exists''\<rparr> st"
    by (simp add: topicsCollectionHandler_post_def)
qed

theorem post_topic_registers_name_as_given_witness:
  "topicsCollectionHandler_post (Some ''  '') ex_fresh_World =
     Return \<lparr>resp_status = 400, resp_code = ''BAD_REQUEST'', resp_text = ''name is required''\<rparr>
       ex_fresh_World \<and>
   TrimSpace '' t '' \<noteq> [] \<and> w_topics ex_fresh_World '' t '' = None \<and>
   topicsCollectionHandler_post (Some '' t '') ex_fresh_World =
     Return \<lparr>resp_status = 201, resp_code = ''created'', resp_text = '' t ''\<rparr>
       (ex_fresh_World\<lparr>w_topics := [ '' t '' \<mapsto> new_topic '' t '']\<rparr>) \<and>
   topicsCollectionHandler_post (Some '' t '')
       (ex_fresh_World\<lparr>w_topics := [ '' t '' \<mapsto> new_topic '' t '']\<rparr>) =
     Return \<lparr>resp_status = 409, resp_code = ''CONFLICT'', resp_text = ''topic already exists''\<rparr>
       (ex_fresh_World\<lparr>w_topics := [ '' t '' \<mapsto> new_topic '' t '']\<rparr>)"
  using post_topic_registers_name_as_given [where req = "Some ''  ''" and st = ex_fresh_World]
    post_topic_registers_name_as_given [where req = "Some '' t ''" and name = "'' t ''"
       and st = ex_fresh_World]
    post_topic_registers_name_as_given [where req = "Some '' t ''" and name = "'' t ''"
       and st = "ex_fresh_World\<lparr>w_topics := [ '' t '' \<mapsto> new_topic '' t '']\<rparr>"]
  by (simp add: TrimSpace_ex ex_fresh_World_def init_World_def)

section \<open>Session exit\<close>

text \<open>
  Claim C1 fails on the code.  A session subscribes client \<open>c\<close> to topic \<open>t\<close> and exits:
  the handler returns with the socket closed, and the subscriber it created is still
  bound to \<open>c\<close> in the topic's map, its closed-signal and its send channel both open.
\<close>

theorem session_exit_leaves_subscriber_registered:
  "result_of ex_session = Some () \<and>
   subscriber_of ''t'' ''c'' (final_state ex_session) = Some 0 \<and>
   signal_closed 0 (final_state ex_session) = Some False \<and>
   send_closed 0 (final_state ex_session) = Some False \<and>
   c_closed (w_conns (final_state ex_session) 1) = Some (1000, ''bye'')"
proof -
  have run: "ex_session =
      Return () (conn_Close 1 StatusNormalClosure ''bye''
        (final_state (handle 1 [] (subscribe_frame ''t'' ''c'' 0)
           (final_state (CreateTopic ''t'' ex_fresh_World)))))"
    by (simp add: ex_session_def wsHandler_closes_no_subscriber handle_def handle_subscribe_def
          subscribe_frame_def CreateTopic_def NewRingBuffer_def ex_fresh_World_def init_World_def
          new_Subscriber_def register_def close_existing_def subscriber_of_def)
  show ?thesis
    unfolding run
    by (simp add: handle_def handle_subscribe_def subscribe_frame_def CreateTopic_def
          NewRingBuffer_def ex_fresh_World_def init_World_def new_Subscriber_def register_def
          close_existing_def bind_subscriber_def subscriber_of_def upd_topic_def conn_Write_def
          conn_Close_def result_of_def signal_closed_def send_closed_def StatusNormalClosure_def)
qed

section \<open>Overflow during replay\<close>



text \<open>
  Claim C9.  When the replay holds at least two messages more than the queue takes, the
  overflow is not on the last message: \<open>CloseWithError\<close> closes the send channel, the
  loop goes on, and the next iteration sends on the closed channel.  The handler panics,
  and the closed subscriber stays bound in the topic's map.
\<close>

theorem replay_sends_on_closed_channel:
  assumes "wf_World st"
    and "in_Type i = ''subscribe''" "in_Topic i \<noteq> []" "in_ClientID i \<noteq> []"
    and "w_topics st (in_Topic i) = Some topic"
    and "0 < in_LastN i" "LastN (t_history topic) (in_LastN i) = Inr ms"
    and "subscriberQueueSize (w_env st) + 2 \<le> length ms"
  shows "\<exists>st1 s1. handle c order i st = Panic SendOnClosedChannel st1 \<and>
           w_subs st1 (w_next st) = Some s1 \<and> s_id s1 = in_ClientID i \<and>
           s_closed s1 \<and> ch_closed (s_send s1) \<and>
           ch_buf (s_send s1) = take (subscriberQueueSize (w_env st)) ms \<and>
           subscriber_of (in_Topic i) (in_ClientID i) st1 = Some (w_next st)"
proof -
  have over: "subscriberQueueSize (w_env st) < length ms" using assms(8) by simp
  from subscribe_overflow [OF assms(1,3-7) over, of c] obtain st1 where
    h: "handle_subscribe c i st =
             (if length ms = Suc (subscriberQueueSize (w_env st)) then Return () st1
              else Panic SendOnClosedChannel st1)"
    and s: "w_subs st1 (w_next st) =
             Some \<lparr>s_id = in_ClientID i,
                   s_send = \<lparr>ch_buf = take (subscriberQueueSize (w_env st)) ms,
                             ch_cap = subscriberQueueSize (w_env st), ch_closed = True\<rparr>,
                   s_conn = c, s_closed = True\<rparr>"
    and r: "subscriber_of (in_Topic i) (in_ClientID i) st1 = Some (w_next st)"
    by blast
  have "handle c order i st = handle_subscribe c i st"
    using assms(2) by (simp add: handle_def)
  with h assms(8) have "handle c order i st = Panic SendOnClosedChannel st1" by simp
  then show ?thesis using s r by simp
qed

theorem replay_sends_on_closed_channel_witness:
  "wf_World ex_pub_World \<and>
   w_topics ex_pub_World ''t'' =
     Some \<lparr>t_name = ''t'', t_subscribers = Map.empty,
           t_history = ex_hist [ex_msg ''m1'', ex_msg ''m2'', ex_msg ''m3''], t_msgCount = 3\<rparr> \<and>
   LastN (ex_hist [ex_msg ''m1'', ex_msg ''m2'', ex_msg ''m3'']) 3 =
     Inr [ex_msg ''m1'', ex_msg ''m2'', ex_msg ''m3''] \<and>
   subscriberQueueSize (w_env ex_pub_World) = 1 \<and>
   (\<exists>st1. handle 1 [] (subscribe_frame ''t'' ''a'' 3) ex_pub_World = Panic SendOnClosedChannel st1)"
  using replay_sends_on_closed_channel
     [where st = ex_pub_World and i = "subscribe_frame ''t'' ''a'' 3" and c = 1 and order = "[]"
        and ms = "[ex_msg ''m1'', ex_msg ''m2'', ex_msg ''m3'']"
        and topic = "\<lparr>t_name = ''t'', t_subscribers = Map.empty,
           t_history = ex_hist [ex_msg ''m1'', ex_msg ''m2'', ex_msg ''m3''], t_msgCount = 3\<rparr>"]
    ex_pub_World_wf ex_hist_LastN(2) ex_queue_size
  by (auto simp: subscribe_frame_def ex_pub_World_def)

section \<open>Subscribing twice under one client id\<close>

text \<open>
  Claim C5.  Two \<open>subscribe\<close> requests for the same existing topic \<open>T\<close> and client id
  \<open>C\<close>, handled one after the other on connections \<open>c1\<close> and \<open>c2\<close> (equal or not), both
  returning.  After the first, \<open>C\<close> is bound to the subscriber it created; after the
  second, \<open>C\<close> is bound to the subscriber the second created, a different object, and the
  first subscriber is closed: its closed-signal has fired, its send channel is closed and
  its connection \<open>c1\<close> is closed.

  The second handler closes the first subscriber before it binds the new one.  Its run is
  \<open>replay_and_ack\<close> started from \<open>bind_subscriber\<close> applied to the state \<open>mid\<close> that \<open>Close\<close>
  of the first subscriber returned; in \<open>mid\<close> the first subscriber is closed (signal,
  channel and connection) and \<open>C\<close> is still bound to it.  In runs that return, closing
  before binding and binding before closing end in the same state, so the order of the
  two steps is also stated on the handler's outcome as a whole, for every state \<open>st'\<close> in
  which \<open>C\<close> is bound to some subscriber \<open>old\<close> of \<open>T\<close>: the handler is \<open>Close old\<close> on the
  state in which the new subscriber is allocated and not bound, followed by the binding
  and the rest; and where that \<open>Close\<close> faults, the handler faults in the state \<open>Close\<close>
  left, in which \<open>C\<close> is bound to \<open>old\<close> as before and the new binding has not been made.
\<close>

theorem second_subscribe_replaces_first:
  assumes "in_Type i1 = ''subscribe''" "in_Type i2 = ''subscribe''"
    and "in_Topic i1 = T" "in_Topic i2 = T" "in_ClientID i1 = C" "in_ClientID i2 = C"
    and "T \<noteq> []" "C \<noteq> []"
    and "w_topics st T = Some topic"
    and "handle c1 order1 i1 st = Return () st1"
    and "handle c2 order2 i2 st1 = Return () st2"
  shows "\<exists>s1 s2 mid so topic1.
           subscriber_of T C st1 = Some (w_next st) \<and>
           subscriber_of T C st2 = Some (w_next st1) \<and> w_next st1 \<noteq> w_next st \<and>
           w_subs st2 (w_next st1) = Some s2 \<and> s_id s2 = C \<and> s_conn s2 = c2 \<and>
           w_subs st2 (w_next st) = Some s1 \<and> s_id s1 = C \<and> s_conn s1 = c1 \<and>
           s_closed s1 \<and> ch_closed (s_send s1) \<and> c_closed (w_conns st2 c1) \<noteq> None \<and>
           close_existing T C (snd (new_Subscriber C c2 st1)) = Return () mid \<and>
           Close (w_next st) (snd (new_Subscriber C c2 st1)) = Return () mid \<and>
           subscriber_of T C mid = Some (w_next st) \<and>
           w_subs mid (w_next st) = Some so \<and>
           s_closed so \<and> ch_closed (s_send so) \<and> c_closed (w_conns mid c1) \<noteq> None \<and>
           register T C (w_next st1) (snd (new_Subscriber C c2 st1)) =
             Return () (bind_subscriber T C (w_next st1) mid) \<and>
           w_topics st1 T = Some topic1 \<and>
           handle c2 order2 i2 st1 =
             replay_and_ack c2 i2 topic1 (w_next st1) (bind_subscriber T C (w_next st1) mid) \<and>
           (\<forall>st' topic' old.
              w_topics st' T = Some topic' \<and> t_subscribers topic' C = Some old \<longrightarrow>
                handle c2 order2 i2 st' =
                  and_then (Close old (snd (new_Subscriber C c2 st')))
                    (\<lambda>m. replay_and_ack c2 i2 topic' (w_next st')
                            (bind_subscriber T C (w_next st') m)) \<and>
                (\<forall>p stp. Close old (snd (new_Subscriber C c2 st')) = Panic p stp \<longrightarrow>
                   handle c2 order2 i2 st' = Panic p stp \<and> subscriber_of T C stp = Some old))"
proof -
  have v1: "in_Topic i1 \<noteq> []" "in_ClientID i1 \<noteq> []" "w_topics st (in_Topic i1) = Some topic"
    using assms by simp_all
  have h1: "handle_subscribe c1 i1 st = Return () st1"
    using assms(1,10) by (simp add: handle_def)
  from subscribe_Return [OF v1 h1] obtain mid0 where
    ce0: "close_existing T C (snd (new_Subscriber C c1 st)) = Return () mid0" and
    ev0: "evolves (bind_subscriber T C (w_next st) mid0) st1" and
    n1: "w_next st1 = Suc (w_next st)" and
    t1: "w_topics st1 = (w_topics st)(T \<mapsto> topic\<lparr>t_subscribers := (t_subscribers topic)(C \<mapsto> w_next st)\<rparr>)" and
    new1: "\<exists>s. w_subs st1 (w_next st) = Some s \<and> s_id s = C \<and> s_conn s = c1"
    using assms(3,5) by auto
  have b1: "subscriber_of T C st1 = Some (w_next st)"
    by (simp add: subscriber_of_def t1)
  let ?topic1 = "topic\<lparr>t_subscribers := (t_subscribers topic)(C \<mapsto> w_next st)\<rparr>"
  let ?stn = "snd (new_Subscriber C c2 st1)"
  have tp1: "w_topics st1 T = Some ?topic1" by (simp add: t1)
  have v2: "in_Topic i2 \<noteq> []" "in_ClientID i2 \<noteq> []" "w_topics st1 (in_Topic i2) = Some ?topic1"
    using assms by (simp_all add: t1)
  have h2: "handle_subscribe c2 i2 st1 = Return () st2"
    using assms(2,11) by (simp add: handle_def)
  from subscribe_Return [OF v2 h2] obtain mid where
    ce: "close_existing T C ?stn = Return () mid" and
    sm: "subscriber_of T C mid = subscriber_of T C st1" and
    old: "\<And>old. subscriber_of T C st1 = Some old \<Longrightarrow>
              (\<exists>so. w_subs mid old = Some so \<and> s_closed so) \<and>
              (\<exists>so. w_subs st2 old = Some so \<and> s_closed so)" and
    reg: "register T C (w_next st1) ?stn = Return () (bind_subscriber T C (w_next st1) mid)" and
    ev: "evolves (bind_subscriber T C (w_next st1) mid) st2" and
    t2: "w_topics st2 = (w_topics st1)(T \<mapsto> ?topic1\<lparr>t_subscribers := (t_subscribers ?topic1)(C \<mapsto> w_next st1)\<rparr>)" and
    new2: "\<exists>s. w_subs st2 (w_next st1) = Some s \<and> s_id s = C \<and> s_conn s = c2"
    using assms(4,6) by auto
  have b2: "subscriber_of T C st2 = Some (w_next st1)"
    by (simp add: subscriber_of_def t2)
  from old [OF b1] obtain sm1 s1 where
    m1: "w_subs mid (w_next st) = Some sm1" "s_closed sm1" and
    c1: "w_subs st2 (w_next st) = Some s1" "s_closed s1"
    by blast
  from new1 obtain sa where sa: "w_subs st1 (w_next st) = Some sa" "s_id sa = C" "s_conn sa = c1"
    by blast
  have stn: "w_subs ?stn (w_next st) = Some sa"
    using sa n1 by (simp add: new_Subscriber_def)
  from evolves_sub [OF close_existing_Return(1) [OF ce] stn] m1 sa
  have idm: "s_id sm1 = C" "s_conn sm1 = c1" by auto
  have keep: "s_id s1 = C \<and> s_conn s1 = c1"
  proof -
    have "w_subs (bind_subscriber T C (w_next st1) mid) (w_next st) = Some sm1"
      using m1 by (simp add: bind_subscriber_def)
    from evolves_sub [OF ev this]
    have "\<exists>s. w_subs st2 (w_next st) = Some s \<and> s_id s = s_id sm1 \<and> s_conn s = s_conn sm1"
      by auto
    then show ?thesis using c1 idm by auto
  qed
  from new2 obtain s2 where s2: "w_subs st2 (w_next st1) = Some s2" "s_id s2 = C" "s_conn s2 = c2"
    by blast
  have run1: "handle c1 order1 i1 st =
      and_then (close_existing T C (snd (new_Subscriber C c1 st)))
        (\<lambda>m. replay_and_ack c1 i1 topic (w_next st) (bind_subscriber T C (w_next st) m))"
    using subscribe_as_steps [OF assms(1) v1, of c1 order1] assms(3,5) by simp
  have rest1: "replay_and_ack c1 i1 topic (w_next st) (bind_subscriber T C (w_next st) mid0) = Return () st1"
    using run1 ce0 assms(10) by simp
  have "tidy (w_next st) mid0"
    using tidy_close_existing [OF ce0 tidy_new_Subscriber(1)] .
  then have "tidy (w_next st) (bind_subscriber T C (w_next st) mid0)" by simp
  from tidy_replay_and_ack [OF rest1 this] have tidy1: "tidy (w_next st) st1" .
  have "tidy (w_next st) ?stn"
    using tidy1 n1 by (simp add: tidy_new_Subscriber(2))
  from tidy_close_existing [OF ce this] have tidy_mid: "tidy (w_next st) mid" .
  have run2: "handle c2 order2 i2 st1 =
      and_then (close_existing T C ?stn)
        (\<lambda>m. replay_and_ack c2 i2 ?topic1 (w_next st1) (bind_subscriber T C (w_next st1) m))"
    using subscribe_as_steps [OF assms(2) v2, of c2 order2] assms(4,6) by simp
  then have cont: "handle c2 order2 i2 st1 =
      replay_and_ack c2 i2 ?topic1 (w_next st1) (bind_subscriber T C (w_next st1) mid)"
    by (simp add: ce)
  then have rest2: "replay_and_ack c2 i2 ?topic1 (w_next st1) (bind_subscriber T C (w_next st1) mid) = Return () st2"
    using assms(11) by simp
  have "tidy (w_next st) (bind_subscriber T C (w_next st1) mid)" using tidy_mid by simp
  from tidy_replay_and_ack [OF rest2 this] have tidy2: "tidy (w_next st) st2" .
  have full_mid: "ch_closed (s_send sm1) \<and> c_closed (w_conns mid c1) \<noteq> None"
    using tidy_mid m1 idm by (simp add: tidy_def)
  have full2: "ch_closed (s_send s1) \<and> c_closed (w_conns st2 c1) \<noteq> None"
    using tidy2 c1 keep by (simp add: tidy_def)
  have cl: "Close (w_next st) ?stn = Return () mid"
  proof -
    have "subscriber_of T C ?stn = Some (w_next st)"
      using b1 by (simp add: subscriber_of_def new_Subscriber_def)
    with ce show ?thesis by (simp add: close_existing_def)
  qed
  have gen: "handle c2 order2 i2 st' =
                  and_then (Close old (snd (new_Subscriber C c2 st')))
                    (\<lambda>m. replay_and_ack c2 i2 topic' (w_next st')
                            (bind_subscriber T C (w_next st') m)) \<and>
                (\<forall>p stp. Close old (snd (new_Subscriber C c2 st')) = Panic p stp \<longrightarrow>
                   handle c2 order2 i2 st' = Panic p stp \<and> subscriber_of T C stp = Some old)"
    if "w_topics st' T = Some topic' \<and> t_subscribers topic' C = Some old" for st' topic' old
  proof -
    have a: "w_topics st' (in_Topic i2) = Some topic'" "t_subscribers topic' (in_ClientID i2) = Some old"
      using that assms(4,6) by simp_all
    note eq = subscribe_closes_old_first(1) [OF assms(2) v2(1,2) a, where c = c2 and order = order2]
    note pn = subscribe_closes_old_first(2) [OF assms(2) v2(1,2) a, where c = c2 and order = order2]
    show ?thesis using eq pn assms(4,6) by simp
  qed
  have A: "subscriber_of T C st1 = Some (w_next st) \<and>
           subscriber_of T C st2 = Some (w_next st1) \<and> w_next st1 \<noteq> w_next st \<and>
           w_subs st2 (w_next st1) = Some s2 \<and> s_id s2 = C \<and> s_conn s2 = c2 \<and>
           w_subs st2 (w_next st) = Some s1 \<and> s_id s1 = C \<and> s_conn s1 = c1 \<and>
           s_closed s1 \<and> ch_closed (s_send s1) \<and> c_closed (w_conns st2 c1) \<noteq> None"
    using b1 b2 n1 s2 c1 keep full2 by simp
  have B: "close_existing T C ?stn = Return () mid \<and>
           Close (w_next st) ?stn = Return () mid \<and>
           subscriber_of T C mid = Some (w_next st) \<and>
           w_subs mid (w_next st) = Some sm1 \<and>
           s_closed sm1 \<and> ch_closed (s_send sm1) \<and> c_closed (w_conns mid c1) \<noteq> None \<and>
           register T C (w_next st1) ?stn = Return () (bind_subscriber T C (w_next st1) mid) \<and>
           w_topics st1 T = Some ?topic1 \<and>
           handle c2 order2 i2 st1 =
             replay_and_ack c2 i2 ?topic1 (w_next st1) (bind_subscriber T C (w_next st1) mid)"
    using ce cl sm b1 m1 full_mid reg tp1 cont by simp
  from A B gen show ?thesis by blast
qed

theorem second_subscribe_replaces_first_witness:
  "w_topics ex_pub_World ''t'' \<noteq> None \<and>
   (\<exists>st1 st2.
      handle 1 [] (subscribe_frame ''t'' ''a'' 1) ex_pub_World = Return () st1 \<and>
      handle 2 [] (subscribe_frame ''t'' ''a'' 0) st1 = Return () st2 \<and>
      subscriber_of ''t'' ''a'' st1 = Some 0 \<and>
      subscriber_of ''t'' ''a'' st2 = Some 1 \<and>
      signal_closed 0 st2 = Some True \<and> send_closed 0 st2 = Some True \<and>
      c_closed (w_conns st2 1) = Some (1000, ''subscriber closed'') \<and>
      signal_closed 1 st2 = Some False) \<and>
   subscriber_of ''t'' ''a'' ex_torn_World = Some 0 \<and>
   handle 2 [] (subscribe_frame ''t'' ''a'' 0) ex_torn_World =
     Panic CloseOfClosedChannel
       (final_state (handle 2 [] (subscribe_frame ''t'' ''a'' 0) ex_torn_World)) \<and>
   subscriber_of ''t'' ''a''
     (final_state (handle 2 [] (subscribe_frame ''t'' ''a'' 0) ex_torn_World)) = Some 0"
proof -
  let ?i1 = "subscribe_frame ''t'' ''a'' 1" and ?i2 = "subscribe_frame ''t'' ''a'' 0"
  define st1 where "st1 = final_state (handle 1 [] ?i1 ex_pub_World)"
  define st2 where "st2 = final_state (handle 2 [] ?i2 st1)"
  have st1_eq: "st1 =
     ex_pub_World
       \<lparr>w_topics := [''t'' \<mapsto> \<lparr>t_name = ''t'', t_subscribers = [''a'' \<mapsto> 0],
                              t_history = ex_hist [ex_msg ''m1'', ex_msg ''m2'', ex_msg ''m3''],
                              t_msgCount = 3\<rparr>],
        w_subs := [0 \<mapsto> \<lparr>s_id = ''a'',
                           s_send = \<lparr>ch_buf = [ex_msg ''m3''], ch_cap = 1, ch_closed = False\<rparr>,
                           s_conn = 1, s_closed = False\<rparr>],
        w_next := 1,
        w_conns := (w_conns ex_pub_World)
           (1 := \<lparr>c_sent = [ack_frame ''r'' ''t''], c_closed = None\<rparr>)\<rparr>"
    by (simp add: st1_def ex_pub_World_def handler_defs ex_hist_LastN1)
  have r1: "handle 1 [] ?i1 ex_pub_World = Return () st1"
    by (simp add: st1_def ex_pub_World_def handler_defs ex_hist_LastN1)
  have r2: "handle 2 [] ?i2 st1 = Return () st2"
    unfolding st2_def by (simp add: st1_eq ex_pub_World_def handler_defs)
  have n: "w_next ex_pub_World = 0" "w_next st1 = 1"
    by (simp_all add: st1_eq ex_pub_World_def)
  have fr: "in_Type ?i1 = ''subscribe''" "in_Type ?i2 = ''subscribe''"
    "in_Topic ?i1 = ''t''" "in_Topic ?i2 = ''t''" "in_ClientID ?i1 = ''a''" "in_ClientID ?i2 = ''a''"
    "''t'' \<noteq> []" "''a'' \<noteq> []"
    by (simp_all add: subscribe_frame_def)
  have tp: "w_topics ex_pub_World ''t'' =
      Some \<lparr>t_name = ''t'', t_subscribers = Map.empty,
            t_history = ex_hist [ex_msg ''m1'', ex_msg ''m2'', ex_msg ''m3''], t_msgCount = 3\<rparr>"
    by (simp add: ex_pub_World_def)
  from second_subscribe_replaces_first [OF fr tp r1 r2] obtain s1 s2 where
    b1: "subscriber_of ''t'' ''a'' st1 = Some 0" and
    b2: "subscriber_of ''t'' ''a'' st2 = Some 1" and
    new: "w_subs st2 1 = Some s2" and
    old: "w_subs st2 0 = Some s1" "s_closed s1" "ch_closed (s_send s1)"
         "c_closed (w_conns st2 1) \<noteq> None" and
    gen: "\<And>st' topic' old p stp.
            w_topics st' ''t'' = Some topic' \<and> t_subscribers topic' ''a'' = Some old \<Longrightarrow>
            Close old (snd (new_Subscriber ''a'' 2 st')) = Panic p stp \<Longrightarrow>
            handle 2 [] ?i2 st' = Panic p stp \<and> subscriber_of ''t'' ''a'' stp = Some old"
    unfolding n by blast
  have open2: "signal_closed 1 st2 = Some False"
    unfolding st2_def by (simp add: st1_eq ex_pub_World_def handler_defs signal_closed_def)
  have conn1: "c_closed (w_conns st2 1) = Some (1000, ''subscriber closed'')"
    unfolding st2_def by (simp add: st1_eq ex_pub_World_def handler_defs)
  have torn_t: "w_topics ex_torn_World ''t'' =
      Some \<lparr>t_name = ''t'', t_subscribers = [''a'' \<mapsto> 0],
            t_history = ex_hist [ex_msg ''m1'', ex_msg ''m2'', ex_msg ''m3''], t_msgCount = 3\<rparr> \<and>
      t_subscribers \<lparr>t_name = ''t'', t_subscribers = [''a'' \<mapsto> 0],
            t_history = ex_hist [ex_msg ''m1'', ex_msg ''m2'', ex_msg ''m3''], t_msgCount = 3\<rparr> ''a'' = Some 0"
    by (simp add: ex_torn_World_def)
  have torn_b: "subscriber_of ''t'' ''a'' ex_torn_World = Some 0"
    by (simp add: ex_torn_World_def subscriber_of_def)
  have "\<exists>stp. Close 0 (snd (new_Subscriber ''a'' 2 ex_torn_World)) = Panic CloseOfClosedChannel stp"
    by (simp add: ex_torn_World_def new_Subscriber_def Close_def Let_def)
  then obtain stp where
    "Close 0 (snd (new_Subscriber ''a'' 2 ex_torn_World)) = Panic CloseOfClosedChannel stp" ..
  from gen [OF torn_t this]
  have torn: "handle 2 [] ?i2 ex_torn_World =
     Panic CloseOfClosedChannel (final_state (handle 2 [] ?i2 ex_torn_World))"
    "subscriber_of ''t'' ''a'' (final_state (handle 2 [] ?i2 ex_torn_World)) = Some 0"
    by simp_all
  have "w_topics ex_pub_World ''t'' \<noteq> None" using tp by simp
  moreover have "\<exists>st1 st2.
      handle 1 [] ?i1 ex_pub_World = Return () st1 \<and>
      handle 2 [] ?i2 st1 = Return () st2 \<and>
      subscriber_of ''t'' ''a'' st1 = Some 0 \<and>
      subscriber_of ''t'' ''a'' st2 = Some 1 \<and>
      signal_closed 0 st2 = Some True \<and> send_closed 0 st2 = Some True \<and>
      c_closed (w_conns st2 1) = Some (1000, ''subscriber closed'') \<and>
      signal_closed 1 st2 = Some False"
    using r1 r2 b1 b2 old open2 conn1 by (auto simp: signal_closed_def send_closed_def)
  ultimately show ?thesis using torn_b torn by blast
qed

section \<open>Eviction of slow consumers\<close>

text \<open>
  Claim C3 fails on the code.  A replay overflow closes the new subscriber and leaves it
  in the topic's map, and the fan-out loop of \<open>publishToTopic\<close> sends to every registered
  subscriber without looking at its closed-signal; a send on a closed channel panics,
  also inside a \<open>select\<close> with a \<open>default\<close>.  In the example, \<open>a\<close> is registered with a
  full queue and an open connection, \<open>b\<close> with its send channel closed, \<open>c\<close> with an empty
  queue.  A publish of \<open>m4\<close> never returns, in any order of the iteration over the map:
  visiting \<open>a\<close>, \<open>b\<close>, \<open>c\<close>, it evicts \<open>a\<close> and panics at \<open>b\<close>, and \<open>c\<close> is not delivered the
  message; visiting \<open>b\<close> first, it panics at once, \<open>a\<close> stays registered and unclosed with
  its queue at capacity, and \<open>c\<close> is not delivered the message; visiting \<open>c\<close>, \<open>a\<close>, \<open>b\<close>, it
  delivers to \<open>c\<close>, evicts \<open>a\<close>, and panics.  The publishing session on connection 0 is sent
  neither an ack nor an error.
\<close>

theorem publish_panics_on_closed_subscriber:
  "subscriber_of ''t'' ''a'' ex_stale_World = Some 0 \<and>
   queue_length 0 ex_stale_World = Some 1 \<and> queue_capacity 0 ex_stale_World = Some 1 \<and>
   send_closed 0 ex_stale_World = Some False \<and>
   c_closed (w_conns ex_stale_World 1) = None \<and>
   subscriber_of ''t'' ''b'' ex_stale_World = Some 1 \<and> send_closed 1 ex_stale_World = Some True \<and>
   subscriber_of ''t'' ''c'' ex_stale_World = Some 2 \<and>
   queue_length 2 ex_stale_World = Some 0 \<and> queue_capacity 2 ex_stale_World = Some 1 \<and>
   send_closed 2 ex_stale_World = Some False \<and>
   publishToTopic ''t'' (ex_msg ''m4'') [''a'', ''b'', ''c''] ex_stale_World =
     Panic SendOnClosedChannel
       (final_state (publishToTopic ''t'' (ex_msg ''m4'') [''a'', ''b'', ''c''] ex_stale_World)) \<and>
   subscriber_of ''t'' ''a''
     (final_state (publishToTopic ''t'' (ex_msg ''m4'') [''a'', ''b'', ''c''] ex_stale_World)) = None \<and>
   queue_length 2
     (final_state (publishToTopic ''t'' (ex_msg ''m4'') [''a'', ''b'', ''c''] ex_stale_World)) = Some 0 \<and>
   publishToTopic ''t'' (ex_msg ''m4'') [''b'', ''a'', ''c''] ex_stale_World =
     Panic SendOnClosedChannel
       (final_state (publishToTopic ''t'' (ex_msg ''m4'') [''b'', ''a'', ''c''] ex_stale_World)) \<and>
   subscriber_of ''t'' ''a''
     (final_state (publishToTopic ''t'' (ex_msg ''m4'') [''b'', ''a'', ''c''] ex_stale_World)) = Some 0 \<and>
   signal_closed 0
     (final_state (publishToTopic ''t'' (ex_msg ''m4'') [''b'', ''a'', ''c''] ex_stale_World)) = Some False \<and>
   slow_frame \<notin> set (c_sent (w_conns
     (final_state (publishToTopic ''t'' (ex_msg ''m4'') [''b'', ''a'', ''c''] ex_stale_World)) 1)) \<and>
   queue_length 2
     (final_state (publishToTopic ''t'' (ex_msg ''m4'') [''b'', ''a'', ''c''] ex_stale_World)) = Some 0 \<and>
   publishToTopic ''t'' (ex_msg ''m4'') [''c'', ''a'', ''b''] ex_stale_World =
     Panic SendOnClosedChannel
       (final_state (publishToTopic ''t'' (ex_msg ''m4'') [''c'', ''a'', ''b''] ex_stale_World)) \<and>
   subscriber_of ''t'' ''b''
     (final_state (publishToTopic ''t'' (ex_msg ''m4'') [''c'', ''a'', ''b''] ex_stale_World)) = Some 1 \<and>
   handle 0 [''a'', ''b'', ''c''] (publish_frame ''t'' ''m4'') ex_stale_World =
     Panic SendOnClosedChannel
       (final_state (publishToTopic ''t'' (ex_msg ''m4'') [''a'', ''b'', ''c''] ex_stale_World)) \<and>
   c_sent (w_conns
     (final_state (publishToTopic ''t'' (ex_msg ''m4'') [''a'', ''b'', ''c''] ex_stale_World)) 0) =
     c_sent (w_conns ex_stale_World 0)"
  by (simp add: ex_stale_World_eq ex_pub_World_def publishToTopic_def ex_hist_Add4 handler_defs
        slow_frame_def ack_frame_def error_frame_def zero_frame_def queue_length_def
        queue_capacity_def send_closed_def signal_closed_def handle_publish_def publish_frame_def
        ex_msg_def [symmetric])

end
